theory Spec2Isabelle
  imports Complex_Main
begin

section \<open>JavaScript helpers\<close>

text \<open>
  An awaited call of a collaborator either returns a value or throws. Strings are byte
  strings here: the model covers labels and texts in the Latin-1 range.
\<close>

datatype 'a attempt = Returns 'a | Throws

text \<open>\<^verbatim>\<open>Array.prototype.includes\<close>, \<^verbatim>\<open>indexOf\<close> (\<open>-1\<close> when absent) and
  \<^verbatim>\<open>splice(start, 1, item)\<close> with JavaScript's clamping of \<open>start\<close>.\<close>

definition arr_includes :: "'a list \<Rightarrow> 'a \<Rightarrow> bool" where
  "arr_includes xs x = (x \<in> set xs)"

fun indexOf :: "'a list \<Rightarrow> 'a \<Rightarrow> int" where
  "indexOf [] x = -1"
| "indexOf (y # ys) x =
     (if y = x then 0 else (let i = indexOf ys x in if i < 0 then -1 else i + 1))"

definition splice1 :: "'a list \<Rightarrow> int \<Rightarrow> 'a \<Rightarrow> 'a list" where
  "splice1 xs start item =
     (let n = int (length xs);
          s = nat (if start < 0 then max (n + start) 0 else min start n)
      in take s xs @ [item] @ drop (s + 1) xs)"

text \<open>\<^verbatim>\<open>String.prototype.startsWith\<close> and \<^verbatim>\<open>String.prototype.includes\<close>.\<close>

definition startsWith :: "string \<Rightarrow> string \<Rightarrow> bool" where
  "startsWith s p = (take (length p) s = p)"

fun str_includes :: "string \<Rightarrow> string \<Rightarrow> bool" where
  "str_includes [] sub = (sub = [])"
| "str_includes (c # cs) sub = (startsWith (c # cs) sub \<or> str_includes cs sub)"

section \<open>Page-type classification (verifyItIsOnGoogleMeetPage)\<close>

datatype page_status = SIGN_IN_PAGE | GOOGLE_MEET_PAGE | UNSUPPORTED_PAGE

text \<open>
  What the classification reads from the page: the URL at the start, the URL read again
  inside \<^verbatim>\<open>detectSignInPage\<close>, and whether an \<^verbatim>\<open>h1\<close> with the text "Sign in" is present
  and visible. Each read may throw; the surrounding \<^verbatim>\<open>try\<close> logs the error and turns it
  into \<^verbatim>\<open>null\<close> (\<open>None\<close>). The lines that the classification writes to the logger:
  \<^item> \<open>SignInUrlLogged\<close>: info "Google Meet bot is on the sign in page...";
  \<^item> \<open>SignInHeadingLogged\<close>: info "Google Meet bot is on the page with "Sign in"
    heading...";
  \<^item> \<open>VerifyErrorLogged\<close>: error "Error verifying if Google Meet bot is on the Google
    Meet page...";
  \<^item> \<open>RequiresSignInLogged\<close>: info "Exiting now as meeting requires sign in...";
  \<^item> \<open>UnsupportedPageLogged\<close>: info "Google Meet bot is on the unsupported page...".
\<close>

datatype classify_entry =
    SignInUrlLogged
  | SignInHeadingLogged
  | VerifyErrorLogged
  | RequiresSignInLogged
  | UnsupportedPageLogged

record classify_obs =
  pageUrl :: "string attempt"
  detectUrl :: "string attempt"
  signInHeading :: "bool attempt"

text \<open>\<^verbatim>\<open>detectSignInPage\<close>: its result (\<open>None\<close> when a read throws) and the lines it
  has logged by then.\<close>

definition detectSignInPage :: "classify_obs \<Rightarrow> bool option \<times> classify_entry list" where
  "detectSignInPage obs =
     (case detectUrl obs of
        Throws \<Rightarrow> (None, [])
      | Returns u \<Rightarrow>
          (let result = startsWith u ''https://accounts.google.com/'';
               entries = (if result then [SignInUrlLogged] else [])
           in case signInHeading obs of
                Throws \<Rightarrow> (None, entries)
              | Returns h \<Rightarrow>
                  if h then (Some (result \<and> True), entries @ [SignInHeadingLogged])
                  else (Some result, entries)))"

definition verifyItIsOnGoogleMeetPage ::
  "classify_obs \<Rightarrow> page_status option \<times> classify_entry list" where
  "verifyItIsOnGoogleMeetPage obs =
     (case pageUrl obs of
        Throws \<Rightarrow> (None, [VerifyErrorLogged])
      | Returns u \<Rightarrow>
          if \<not> str_includes u ''meet.google.com''
          then (case detectSignInPage obs of
                  (None, entries) \<Rightarrow> (None, entries @ [VerifyErrorLogged])
                | (Some signInPage, entries) \<Rightarrow>
                    (Some (if signInPage then SIGN_IN_PAGE else UNSUPPORTED_PAGE), entries))
          else (Some GOOGLE_MEET_PAGE, []))"

text \<open>The value bound to \<^verbatim>\<open>googleMeetPageStatus\<close> in \<^verbatim>\<open>joinMeeting\<close>.\<close>

definition googleMeetPageStatus :: "classify_obs \<Rightarrow> page_status option" where
  "googleMeetPageStatus obs = fst (verifyItIsOnGoogleMeetPage obs)"

datatype error =
    UnsupportedMeetingError string page_status
  | WaitingAtLobbyRetryError string string bool nat
  | OtherError string

text \<open>
  What \<^verbatim>\<open>joinMeeting\<close> does with the classification: \<^verbatim>\<open>SIGN_IN_PAGE\<close> is logged and
  throws; \<^verbatim>\<open>UNSUPPORTED_PAGE\<close> is logged and passed over, \<^verbatim>\<open>null\<close> is passed over, and
  both go on to the name entry. The result is the error thrown or nothing, with the lines
  logged.
\<close>

definition afterClassification ::
  "page_status option \<Rightarrow> (error + unit) \<times> classify_entry list" where
  "afterClassification status =
     (if status = Some SIGN_IN_PAGE
      then (Inl (UnsupportedMeetingError ''Meeting requires sign in'' SIGN_IN_PAGE),
            [RequiresSignInLogged])
      else if status = Some UNSUPPORTED_PAGE
      then (Inr (), [UnsupportedPageLogged])
      else (Inr (), []))"

text \<open>Everything the classification step of \<^verbatim>\<open>joinMeeting\<close> logs.\<close>

definition classificationLog :: "classify_obs \<Rightarrow> classify_entry list" where
  "classificationLog obs =
     snd (verifyItIsOnGoogleMeetPage obs) @ snd (afterClassification (googleMeetPageStatus obs))"

section \<open>Waiting at the lobby (waitAtLobbyPromise)\<close>

text \<open>
  The participant-count probe runs in the page over the \<^verbatim>\<open>button\<close> elements in
  document order; a button is represented by its \<^verbatim>\<open>aria-label\<close> attribute (\<open>None\<close>
  when it has none). \<open>firstDigits\<close> is what \<^verbatim>\<open>.*?(\d+)\<close> captures in the text that
  follows "People": the dot does not cross a line terminator, the lazy star stops at the
  first digit and the digit run is taken greedily. \<open>matchPeopleCount\<close> is the search of
  \<^verbatim>\<open>/People.*?(\d+)/\<close> from the leftmost position on: its result is \<^verbatim>\<open>match[1]\<close>.
\<close>

definition isDigit :: "char \<Rightarrow> bool" where
  "isDigit c = (48 \<le> (of_char c :: nat) \<and> (of_char c :: nat) \<le> 57)"

definition isLineTerminator :: "char \<Rightarrow> bool" where
  "isLineTerminator c = ((of_char c :: nat) = 10 \<or> (of_char c :: nat) = 13)"

fun firstDigits :: "string \<Rightarrow> string option" where
  "firstDigits [] = None"
| "firstDigits (c # cs) =
     (if isDigit c then Some (takeWhile isDigit (c # cs))
      else if isLineTerminator c then None
      else firstDigits cs)"

fun matchPeopleCount :: "string \<Rightarrow> string option" where
  "matchPeopleCount [] = None"
| "matchPeopleCount (c # cs) =
     (if startsWith (c # cs) ''People''
      then (case firstDigits (drop 6 (c # cs)) of
              Some d \<Rightarrow> Some d
            | None \<Rightarrow> matchPeopleCount cs)
      else matchPeopleCount cs)"

text \<open>\<^verbatim>\<open>parseInt\<close> on a run of decimal digits.\<close>

definition parseInt :: "string \<Rightarrow> nat" where
  "parseInt ds = foldl (\<lambda>n c. 10 * n + ((of_char c :: nat) - 48)) 0 ds"

text \<open>\<^verbatim>\<open>document.querySelector('button[aria-label^="People"]')\<close>.\<close>

definition peopleButton :: "string option list \<Rightarrow> string option" where
  "peopleButton buttons =
     (case filter (\<lambda>b. case b of None \<Rightarrow> False | Some l \<Rightarrow> startsWith l ''People'') buttons of
        [] \<Rightarrow> None
      | b # _ \<Rightarrow> b)"

definition participantCountDetected :: "string option list \<Rightarrow> bool" where
  "participantCountDetected buttons =
     (if (case peopleButton buttons of
            None \<Rightarrow> False
          | Some ariaLabel \<Rightarrow>
              (case matchPeopleCount ariaLabel of
                 None \<Rightarrow> False
               | Some m \<Rightarrow> parseInt m \<ge> 1))
      then True
      else list_ex (\<lambda>b. case b of
                          None \<Rightarrow> False
                        | Some label \<Rightarrow> label \<noteq> [] \<and> matchPeopleCount label \<noteq> None) buttons)"

datatype lobby_mode =
    WAITING_FOR_HOST_TO_ADMIT_BOT
  | WAITING_REQUEST_TIMEOUT
  | LOBBY_MODE_NOT_ACTIVE
  | UNABLE_TO_DETECT_LOBBY_MODE

text \<open>
  One poll of the lobby reads: whether \<^verbatim>\<open>button[aria-label="People"]\<close> and
  \<^verbatim>\<open>button[aria-label="Leave call"]\<close> were found within 5 seconds (a timeout is caught
  and leaves the variable undefined), whether the host-waiting text and the
  request-timeout text are shown, the buttons seen by the participant-count probe, and
  whether the request-denied text is shown.
\<close>

record poll_obs =
  peopleElement :: bool
  callButtonElement :: bool
  hostWaitingText :: "bool attempt"
  requestTimeoutText :: "bool attempt"
  buttonLabels :: "string option list attempt"
  deniedText :: "bool attempt"

definition detectLobbyModeHostWaitingText :: "poll_obs \<Rightarrow> lobby_mode" where
  "detectLobbyModeHostWaitingText obs =
     (case hostWaitingText obs of
        Throws \<Rightarrow> UNABLE_TO_DETECT_LOBBY_MODE
      | Returns True \<Rightarrow> WAITING_FOR_HOST_TO_ADMIT_BOT
      | Returns False \<Rightarrow>
          (case requestTimeoutText obs of
             Throws \<Rightarrow> UNABLE_TO_DETECT_LOBBY_MODE
           | Returns True \<Rightarrow> WAITING_REQUEST_TIMEOUT
           | Returns False \<Rightarrow> LOBBY_MODE_NOT_ACTIVE))"

datatype poll_result = Resolve bool | KeepWaiting

text \<open>The tail of the interval callback: the request-denied check.\<close>

definition deniedCheck :: "poll_obs \<Rightarrow> poll_result" where
  "deniedCheck obs =
     (let botWasDeniedAccess = (case deniedText obs of Returns b \<Rightarrow> b | Throws \<Rightarrow> False)
      in if botWasDeniedAccess then Resolve False else KeepWaiting)"

definition poll :: "poll_obs \<Rightarrow> poll_result" where
  "poll obs =
     (if peopleElement obs \<or> callButtonElement obs
      then (case detectLobbyModeHostWaitingText obs of
              WAITING_FOR_HOST_TO_ADMIT_BOT \<Rightarrow> deniedCheck obs
            | WAITING_REQUEST_TIMEOUT \<Rightarrow> Resolve False
            | _ \<Rightarrow>
                (case buttonLabels obs of
                   Throws \<Rightarrow> KeepWaiting
                 | Returns buttons \<Rightarrow>
                     if participantCountDetected buttons then Resolve True else KeepWaiting))
      else deniedCheck obs)"

text \<open>
  The promise: the argument is the list of polls that run before the
  \<^verbatim>\<open>wanderingTime\<close> timer fires. The first poll that resolves decides; when none does,
  the timer resolves the promise with \<^verbatim>\<open>false\<close>.
\<close>

fun waitAtLobbyPromise :: "poll_obs list \<Rightarrow> bool" where
  "waitAtLobbyPromise [] = False"
| "waitAtLobbyPromise (obs # rest) =
     (case poll obs of
        Resolve b \<Rightarrow> b
      | KeepWaiting \<Rightarrow> waitAtLobbyPromise rest)"

text \<open>
  After an unsuccessful wait \<^verbatim>\<open>joinMeeting\<close> reads the body text and throws
  \<^verbatim>\<open>WaitingAtLobbyRetryError\<close> with \<^verbatim>\<open>retryable = !userDenied\<close>, where \<^verbatim>\<open>userDenied\<close>
  says whether the body text includes the constant \<^verbatim>\<open>GOOGLE_REQUEST_DENIED\<close> (a
  parameter here). The three admission outcomes are read off that.
\<close>

datatype AdmissionOutcome = Admitted | Denied | TimedOut

definition lobbyStage :: "string \<Rightarrow> poll_obs list \<Rightarrow> string attempt \<Rightarrow> error + unit" where
  "lobbyStage GOOGLE_REQUEST_DENIED polls bodyRead =
     (let waitingAtLobbySuccess = waitAtLobbyPromise polls
      in if \<not> waitingAtLobbySuccess
         then (case bodyRead of
                 Throws \<Rightarrow> Inl (OtherError ''page.evaluate'')
               | Returns bodyText \<Rightarrow>
                   (let userDenied = str_includes bodyText GOOGLE_REQUEST_DENIED
                    in Inl (WaitingAtLobbyRetryError ''Google Meet bot could not enter the meeting...''
                              bodyText (\<not> userDenied) 2)))
         else Inr ())"

definition admissionOutcome :: "string \<Rightarrow> poll_obs list \<Rightarrow> string \<Rightarrow> AdmissionOutcome" where
  "admissionOutcome GOOGLE_REQUEST_DENIED polls bodyText =
     (case lobbyStage GOOGLE_REQUEST_DENIED polls (Returns bodyText) of
        Inr _ \<Rightarrow> Admitted
      | Inl (WaitingAtLobbyRetryError _ _ retryable _) \<Rightarrow> (if retryable then TimedOut else Denied)
      | Inl _ \<Rightarrow> TimedOut)"

section \<open>The session: joinMeeting and join\<close>

datatype BotStatus = processing | joined | finished | failed

text \<open>
  The stages of \<^verbatim>\<open>joinMeeting\<close> that can throw, in the order of the source: launching
  the browser and loading the page; the classification; the name entry; the "Ask to
  join" click; the wait at the lobby; the recording. Dismissing the device check,
  toggling the devices, the "Got it" dialogs, \<^verbatim>\<open>speakInMeeting\<close> and
  \<^verbatim>\<open>startVoiceActivatedListening\<close> catch their own errors and are no stage here.
  \<^verbatim>\<open>pushState\<close> appends to the \<^verbatim>\<open>_state\<close> array of \<^verbatim>\<open>join\<close>, which is threaded
  through.
\<close>

record jm_env =
  launch :: "unit attempt"
  classification :: classify_obs
  nameEntry :: "unit attempt"
  askToJoin :: "unit attempt"
  requestDeniedText :: string
  lobbyPolls :: "poll_obs list"
  lobbyBodyText :: "string attempt"
  recording :: "unit attempt"

definition joinMeeting :: "jm_env \<Rightarrow> BotStatus list \<Rightarrow> (error + unit) \<times> BotStatus list" where
  "joinMeeting env st =
     (case launch env of
        Throws \<Rightarrow> (Inl (OtherError ''launch''), st)
      | Returns _ \<Rightarrow>
     (case fst (afterClassification (googleMeetPageStatus (classification env))) of
        Inl e \<Rightarrow> (Inl e, st)
      | Inr _ \<Rightarrow>
     (case nameEntry env of
        Throws \<Rightarrow> (Inl (OtherError ''name entry''), st)
      | Returns _ \<Rightarrow>
     (case askToJoin env of
        Throws \<Rightarrow> (Inl (OtherError ''Unable to complete the join action...''), st)
      | Returns _ \<Rightarrow>
     (case lobbyStage (requestDeniedText env) (lobbyPolls env) (lobbyBodyText env) of
        Inl lobbyError \<Rightarrow> (Inl lobbyError, st)
      | Inr _ \<Rightarrow>
     (let st1 = st @ [joined]
      in case recording env of
           Throws \<Rightarrow> (Inl (OtherError ''recording''), st1)
         | Returns _ \<Rightarrow> (Inr (), st1 @ [finished])))))))"

text \<open>
  \<^verbatim>\<open>join\<close> reports the status history through \<^verbatim>\<open>patchBotStatus\<close>: once at the end of
  the \<^verbatim>\<open>try\<close> block, and once in the \<^verbatim>\<open>catch\<close> block. The result records the history
  passed to each call, the error handlers invoked, the final array and whether
  \<^verbatim>\<open>join\<close> returned or threw. The upload and both \<^verbatim>\<open>patchBotStatus\<close> calls are
  collaborators that may throw.
\<close>

datatype handler_call = HandleWaitingAtLobbyError error | HandleUnsupportedMeetingError error

record join_env =
  meeting :: jm_env
  uploadResult :: "bool attempt"
  patchInTry :: "unit attempt"
  patchInCatch :: "unit attempt"

record join_result =
  reported :: "BotStatus list list"
  handlerCalls :: "handler_call list"
  finalState :: "BotStatus list"
  outcome :: "error + unit"

definition joinCatch ::
  "join_env \<Rightarrow> error \<Rightarrow> BotStatus list \<Rightarrow> BotStatus list list \<Rightarrow> join_result" where
  "joinCatch env e st reports =
     (let st' = (if \<not> arr_includes st finished then st @ [failed] else st)
      in case patchInCatch env of
           Throws \<Rightarrow>
             \<lparr>reported = reports @ [st'], handlerCalls = [], finalState = st',
              outcome = Inl (OtherError ''patchBotStatus'')\<rparr>
         | Returns _ \<Rightarrow>
             \<lparr>reported = reports @ [st'],
              handlerCalls =
                (case e of
                   WaitingAtLobbyRetryError _ _ _ _ \<Rightarrow> [HandleWaitingAtLobbyError e]
                 | UnsupportedMeetingError _ _ \<Rightarrow> [HandleUnsupportedMeetingError e]
                 | OtherError _ \<Rightarrow> []),
              finalState = st', outcome = Inl e\<rparr>)"

definition join :: "join_env \<Rightarrow> join_result" where
  "join env =
     (case joinMeeting (meeting env) [processing] of
        (Inl e, st) \<Rightarrow> joinCatch env e st []
      | (Inr _, st) \<Rightarrow>
          (case uploadResult env of
             Throws \<Rightarrow> joinCatch env (OtherError ''upload'') st []
           | Returns result \<Rightarrow>
               (let st' = (if arr_includes st finished \<and> \<not> result
                           then splice1 st (indexOf st finished) failed else st)
                in case patchInTry env of
                     Throws \<Rightarrow> joinCatch env (OtherError ''patchBotStatus'') st' [st']
                   | Returns _ \<Rightarrow>
                       \<lparr>reported = [st'], handlerCalls = [], finalState = st',
                        outcome = Inr ()\<rparr>)))"

section \<open>Host-side recording callbacks (recordMeetingPage)\<close>

text \<open>
  \<^verbatim>\<open>recordMeetingPage\<close> exposes two functions to the page. Both compare their first
  argument with the bot's private \<^verbatim>\<open>slightlySecretId\<close> and return at once when it
  differs. The host state they can touch is the uploader's temporary file (the list of
  buffers handed to \<^verbatim>\<open>saveDataToTempFile\<close>), the waiting promise of the recording and
  the log. The constant \<^verbatim>\<open>waitingPromise\<close> is declared after the page script has been
  injected, so a call that arrives earlier finds it uninitialised (\<open>None\<close>) and the
  resulting exception is caught and logged by \<^verbatim>\<open>screenAppMeetEnd\<close>.
\<close>

record 'b host_state =
  slightlySecretId :: string
  tempFile :: "'b list"
  waitingPromise :: "bool option"
  hostLog :: "string list"

text \<open>\<^verbatim>\<open>Buffer.from(data, 'base64')\<close> is a parameter of the model.\<close>

definition screenAppSendData ::
  "(string \<Rightarrow> 'b) \<Rightarrow> string \<Rightarrow> string \<Rightarrow> 'b host_state \<Rightarrow> 'b host_state" where
  "screenAppSendData fromBase64 secretArg data st =
     (if secretArg \<noteq> slightlySecretId st then st
      else st\<lparr>tempFile := tempFile st @ [fromBase64 data]\<rparr>)"

definition screenAppMeetEnd :: "string \<Rightarrow> 'b host_state \<Rightarrow> 'b host_state" where
  "screenAppMeetEnd secretArg st =
     (if secretArg \<noteq> slightlySecretId st then st
      else (let st1 = st\<lparr>hostLog := hostLog st @ [''Attempt to end meeting early...'']\<rparr>
            in case waitingPromise st1 of
                 None \<Rightarrow> st1\<lparr>hostLog := hostLog st1 @ [''Could not process meeting end event'']\<rparr>
               | Some _ \<Rightarrow> st1\<lparr>waitingPromise := Some True\<rparr>))"

section \<open>The recording page: stopTheRecording\<close>

text \<open>
  The state that \<^verbatim>\<open>stopTheRecording\<close> works on, inside the page: the media recorder,
  the tracks of the captured stream, the timer variables of \<^verbatim>\<open>startRecording\<close>
  (\<open>None\<close> while a variable is still undefined), the timers pending in the browser, and
  the secret id handed to the page. Every call the routine makes on a collaborator is
  appended to \<open>effects\<close>. A timer variable is truthy when it holds a non-zero id.
  What \<^verbatim>\<open>mediaRecorder.stop()\<close> does on an inactive recorder depends on the browser:
  it returns silently (the current standard) or throws \<^verbatim>\<open>InvalidStateError\<close>; the
  field \<open>inactiveStopThrows\<close> says which. The routine is \<^verbatim>\<open>async\<close> and has no
  \<^verbatim>\<open>await\<close>, so a call runs to its end (or to the throw) without interleaving.
\<close>

datatype effect = RecorderStop | TrackStop nat | ClearTimer nat | MeetEnd string

record page_state =
  recorderActive :: bool
  inactiveStopThrows :: bool
  trackLive :: "bool list"
  timeoutId :: "nat option"
  inactivityParticipantDetectionTimeout :: "nat option"
  inactivitySilenceDetectionTimeout :: "nat option"
  loneTest :: "nat option"
  isOnValidGoogleMeetPageInterval :: "nat option"
  dismissModalsInterval :: "nat option"
  pendingTimers :: "nat set"
  pageSecretId :: string
  effects :: "effect list"

definition truthy :: "nat option \<Rightarrow> bool" where
  "truthy h = (case h of None \<Rightarrow> False | Some n \<Rightarrow> n \<noteq> 0)"

text \<open>\<^verbatim>\<open>clearTimeout(h)\<close> and \<^verbatim>\<open>clearInterval(h)\<close>; an undefined handle is ignored.\<close>

definition clearTimer :: "nat option \<Rightarrow> page_state \<Rightarrow> page_state" where
  "clearTimer h st =
     (case h of
        None \<Rightarrow> st
      | Some n \<Rightarrow> st\<lparr>pendingTimers := pendingTimers st - {n}, effects := effects st @ [ClearTimer n]\<rparr>)"

definition clearIfSet :: "nat option \<Rightarrow> page_state \<Rightarrow> page_state" where
  "clearIfSet h st = (if truthy h then clearTimer h st else st)"

definition stopTracks :: "page_state \<Rightarrow> page_state" where
  "stopTracks st =
     st\<lparr>trackLive := map (\<lambda>_. False) (trackLive st),
        effects := effects st @ map TrackStop [0 ..< length (trackLive st)]\<rparr>"

definition stopTheRecording :: "page_state \<Rightarrow> page_state" where
  "stopTheRecording st =
     (if \<not> recorderActive st \<and> inactiveStopThrows st
      then st\<lparr>effects := effects st @ [RecorderStop]\<rparr>
      else
        (let st1 = st\<lparr>recorderActive := False, effects := effects st @ [RecorderStop]\<rparr>;
             st2 = stopTracks st1;
             st3 = clearTimer (timeoutId st2) st2;
             st4 = clearIfSet (inactivityParticipantDetectionTimeout st3) st3;
             st5 = clearIfSet (inactivitySilenceDetectionTimeout st4) st4;
             st6 = clearIfSet (loneTest st5) st5;
             st7 = clearIfSet (isOnValidGoogleMeetPageInterval st6) st6;
             st8 = clearIfSet (dismissModalsInterval st7) st7
         in st8\<lparr>effects := effects st8 @ [MeetEnd (pageSecretId st8)]\<rparr>))"

text \<open>
  For comparison: the timer ids that one run of the routine passes to \<^verbatim>\<open>clearTimeout\<close>
  and \<^verbatim>\<open>clearInterval\<close>, in the order of the calls (the duration timer whenever it is
  defined, each of the other five when its variable is truthy), and the calls that one
  complete run makes.
\<close>

definition handlesPassed :: "page_state \<Rightarrow> nat list" where
  "handlesPassed st =
     (case timeoutId st of None \<Rightarrow> [] | Some n \<Rightarrow> [n]) @
     concat (map (\<lambda>h. case h of None \<Rightarrow> [] | Some n \<Rightarrow> if n \<noteq> 0 then [n] else [])
       [inactivityParticipantDetectionTimeout st, inactivitySilenceDetectionTimeout st,
        loneTest st, isOnValidGoogleMeetPageInterval st, dismissModalsInterval st])"

definition callEffects :: "page_state \<Rightarrow> effect list" where
  "callEffects st =
     RecorderStop # map TrackStop [0 ..< length (trackLive st)] @
     map ClearTimer (handlesPassed st) @ [MeetEnd (pageSecretId st)]"

text \<open>The host's side of the end signals that the page has sent.\<close>

fun deliverMeetEnds :: "effect list \<Rightarrow> 'b host_state \<Rightarrow> 'b host_state" where
  "deliverMeetEnds [] host = host"
| "deliverMeetEnds (MeetEnd secretArg # es) host = deliverMeetEnds es (screenAppMeetEnd secretArg host)"
| "deliverMeetEnds (_ # es) host = deliverMeetEnds es host"

section \<open>The presence monitor (detectLoneParticipantResilient)\<close>

text \<open>
  A tick of the monitor's 5 second timer runs \<^verbatim>\<open>check\<close>. What
  \<^verbatim>\<open>getContributorsCount\<close> would return at that tick is the read: a number, or
  \<^verbatim>\<open>undefined\<close> (\<open>Unknown\<close>); \<open>ReadError\<close> is the \<^verbatim>\<open>catch\<close> branch of \<^verbatim>\<open>check\<close>. The
  state holds the two variables of the source, whether the \<^verbatim>\<open>loneTest\<close> timer is
  pending, how many reads were evaluated and how many times \<^verbatim>\<open>stopTheRecording\<close> was
  called.
\<close>

datatype count_read = Count nat | Unknown | ReadError

record presence_state =
  detectionFailures :: nat
  loneTestDetectionActive :: bool
  checkPending :: bool
  readsEvaluated :: nat
  stopRequests :: nat

definition maxDetectionFailures :: nat where
  "maxDetectionFailures = 10"

definition check :: "count_read \<Rightarrow> presence_state \<Rightarrow> presence_state" where
  "check r st =
     (if \<not> loneTestDetectionActive st then st\<lparr>checkPending := False\<rparr>
      else
        (let st0 = st\<lparr>readsEvaluated := readsEvaluated st + 1\<rparr>
         in case r of
              Unknown \<Rightarrow>
                (let st1 = st0\<lparr>detectionFailures := detectionFailures st0 + 1\<rparr>;
                     st2 = (if detectionFailures st1 \<ge> maxDetectionFailures
                            then st1\<lparr>loneTestDetectionActive := False\<rparr> else st1)
                 in st2\<lparr>checkPending := True\<rparr>)
            | Count contributors \<Rightarrow>
                (let st1 = st0\<lparr>detectionFailures := 0\<rparr>
                 in if contributors < 2
                    then st1\<lparr>loneTestDetectionActive := False, checkPending := False,
                             stopRequests := stopRequests st1 + 1\<rparr>
                    else st1\<lparr>checkPending := True\<rparr>)
            | ReadError \<Rightarrow>
                st0\<lparr>detectionFailures := detectionFailures st0 + 1, checkPending := True\<rparr>))"

text \<open>The monitor as started by \<^verbatim>\<open>detectLoneParticipantResilient\<close>, and its run over
  the reads of successive ticks: a tick happens only while the timer is pending.\<close>

definition presenceStart :: presence_state where
  "presenceStart = \<lparr>detectionFailures = 0, loneTestDetectionActive = True, checkPending = True,
                    readsEvaluated = 0, stopRequests = 0\<rparr>"

fun runPresence :: "count_read list \<Rightarrow> presence_state \<Rightarrow> presence_state" where
  "runPresence [] st = st"
| "runPresence (r # rs) st = (if checkPending st then runPresence rs (check r st) else st)"

section \<open>The silence monitor (detectIncrediblySilentMeeting)\<close>

text \<open>
  Every 100 ms \<^verbatim>\<open>monitorSilence\<close> reads the byte frequency data of the analyser, or
  fails doing so. The audio activity is the mean of the bytes; \<^verbatim>\<open>reduce\<close> without an
  initial value throws on an empty array. The inactivity limit is a number of
  milliseconds computed from the configuration.
\<close>

datatype analysis = Frame "nat list" | AnalysisError

record silence_state =
  silenceDuration :: int
  totalChecks :: nat
  audioActivitySum :: real
  monitor :: bool
  nextCheckPending :: bool
  silenceStopRequests :: nat

definition silenceThreshold :: real where
  "silenceThreshold = 10"

definition audioActivity :: "nat list \<Rightarrow> real" where
  "audioActivity dataArray = real (sum_list dataArray) / real (length dataArray)"

definition monitorSilence :: "real \<Rightarrow> analysis \<Rightarrow> silence_state \<Rightarrow> silence_state" where
  "monitorSilence inactivityLimit a st =
     (case a of
        AnalysisError \<Rightarrow> st\<lparr>monitor := False, nextCheckPending := False\<rparr>
      | Frame dataArray \<Rightarrow>
          if dataArray = [] then st\<lparr>monitor := False, nextCheckPending := False\<rparr>
          else
            (let st1 = st\<lparr>audioActivitySum := audioActivitySum st + audioActivity dataArray,
                          totalChecks := totalChecks st + 1\<rparr>
             in if audioActivity dataArray < silenceThreshold
                then (let st2 = st1\<lparr>silenceDuration := silenceDuration st1 + 100\<rparr>
                      in if real_of_int (silenceDuration st2) \<ge> inactivityLimit
                         then st2\<lparr>monitor := False, nextCheckPending := False,
                                  silenceStopRequests := silenceStopRequests st2 + 1\<rparr>
                         else st2\<lparr>nextCheckPending := monitor st2\<rparr>)
                else (let st2 = st1\<lparr>silenceDuration := 0\<rparr>
                      in st2\<lparr>nextCheckPending := monitor st2\<rparr>)))"

definition silenceStart :: silence_state where
  "silenceStart = \<lparr>silenceDuration = 0, totalChecks = 0, audioActivitySum = 0, monitor = True,
                   nextCheckPending = True, silenceStopRequests = 0\<rparr>"

fun runSilence :: "real \<Rightarrow> analysis list \<Rightarrow> silence_state \<Rightarrow> silence_state" where
  "runSilence inactivityLimit [] st = st"
| "runSilence inactivityLimit (a # rest) st =
     (if nextCheckPending st
      then runSilence inactivityLimit rest (monitorSilence inactivityLimit a st) else st)"

text \<open>
  \<^verbatim>\<open>detectIncrediblySilentMeeting\<close>: without audio tracks it returns at once, and when
  setting up the analyser throws the error is caught; in both cases no monitor exists
  (\<open>None\<close>). Otherwise \<^verbatim>\<open>monitorSilence\<close> is called at once and then by its own timer.
\<close>

definition detectIncrediblySilentMeeting ::
  "real \<Rightarrow> bool \<Rightarrow> unit attempt \<Rightarrow> analysis list \<Rightarrow> silence_state option" where
  "detectIncrediblySilentMeeting inactivityLimit hasAudioTracks setup samples =
     (if \<not> hasAudioTracks then None
      else (case setup of
              Throws \<Rightarrow> None
            | Returns _ \<Rightarrow> Some (runSilence inactivityLimit samples silenceStart)))"

text \<open>
  The words of the specification, for comparison: a sample is quiet when its activity is
  below the threshold; the accumulated silence after a sequence of samples is 100 ms for
  each sample of its trailing run of quiet samples; the limit is reached at sample \<open>i\<close>
  when that sample is quiet and the silence accumulated up to and including it is at
  least the limit.
\<close>

definition quiet :: "analysis \<Rightarrow> bool" where
  "quiet a = (case a of Frame d \<Rightarrow> d \<noteq> [] \<and> audioActivity d < silenceThreshold | AnalysisError \<Rightarrow> False)"

definition readable :: "analysis \<Rightarrow> bool" where
  "readable a = (case a of Frame d \<Rightarrow> d \<noteq> [] | AnalysisError \<Rightarrow> False)"

definition accumulatedSilence :: "analysis list \<Rightarrow> int" where
  "accumulatedSilence samples = 100 * int (length (takeWhile quiet (rev samples)))"

definition limitReachedAt :: "real \<Rightarrow> analysis list \<Rightarrow> nat \<Rightarrow> bool" where
  "limitReachedAt inactivityLimit samples i =
     (quiet (samples ! i) \<and>
      inactivityLimit \<le> real_of_int (accumulatedSilence (take (Suc i) samples)))"

section \<open>Voice-activated listening: capture, transcripts and responses\<close>

text \<open>
  \<^verbatim>\<open>String.prototype.trim\<close> removes white space and line terminators at both ends; in
  the Latin-1 range these are the characters 9 to 13, 32 and 160.
\<close>

definition isWhiteSpace :: "char \<Rightarrow> bool" where
  "isWhiteSpace c = ((of_char c :: nat) \<in> {9, 10, 11, 12, 13, 32, 160})"

definition trim :: "string \<Rightarrow> string" where
  "trim s = rev (dropWhile isWhiteSpace (rev (dropWhile isWhiteSpace s)))"

text \<open>
  The state shared by the transcript paths: the page's \<^verbatim>\<open>isSpeaking\<close> flag, the PCM
  buffers with the two time stamps of the capture path, the batches passed to
  \<^verbatim>\<open>__processAudioChunk\<close>, the transcripts passed to \<^verbatim>\<open>__triggerBotResponse\<close>, and
  the due times of the pending 10 second timers that clear the flag. Times are
  \<^verbatim>\<open>Date.now()\<close> in milliseconds.
\<close>

record voice_state =
  isSpeaking :: bool
  pcmAudioBuffers :: "real list list"
  lastTranscriptionTime :: int
  lastAudioActivityTime :: int
  submitted :: "real list list"
  triggered :: "string list"
  readyTimers :: "int list"

definition captureStart :: "int \<Rightarrow> voice_state" where
  "captureStart now = \<lparr>isSpeaking = False, pcmAudioBuffers = [], lastTranscriptionTime = 0,
      lastAudioActivityTime = now, submitted = [], triggered = [], readyTimers = []\<rparr>"


text \<open>
  One tick of \<^verbatim>\<open>transcriptionInterval\<close>, up to the call of \<^verbatim>\<open>__processAudioChunk\<close>:
  what the tick decided, and the state it leaves. The batch passed on is the
  concatenation of the buffers; its encoding as WAV and base64 is taken to succeed.
\<close>

datatype check_action = Speaking | NoBuffers | WaitingForMore | Discarded | Submitted "real list"

definition transcriptionCheck :: "int \<Rightarrow> voice_state \<Rightarrow> check_action \<times> voice_state" where
  "transcriptionCheck now st =
     (if isSpeaking st then (Speaking, st)
      else
        (let timeSinceLastActivity = now - lastAudioActivityTime st;
             timeSinceLastTranscription = now - lastTranscriptionTime st
         in if pcmAudioBuffers st = [] then (NoBuffers, st)
            else
              (let totalSamples = sum_list (map length (pcmAudioBuffers st));
                   minSamples = 32000
               in if totalSamples < minSamples \<or> timeSinceLastTranscription < 5000
                  then (WaitingForMore, st)
                  else if timeSinceLastActivity > 5000
                  then (Discarded, st\<lparr>pcmAudioBuffers := []\<rparr>)
                  else (Submitted (concat (pcmAudioBuffers st)),
                        st\<lparr>lastTranscriptionTime := now,
                           submitted := submitted st @ [concat (pcmAudioBuffers st)]\<rparr>))))"

text \<open>
  The rest of the tick, once \<^verbatim>\<open>__processAudioChunk\<close> has answered with
  \<^verbatim>\<open>{success, transcript}\<close> (or the call has failed): an accepted transcript sets the
  flag and calls \<^verbatim>\<open>__triggerBotResponse\<close>; otherwise the buffers are cleared.
\<close>

datatype transcription = Transcribed bool string | TranscriptionFailed

definition onTranscription :: "transcription \<Rightarrow> voice_state \<Rightarrow> voice_state" where
  "onTranscription result st =
     (case result of
        TranscriptionFailed \<Rightarrow> st\<lparr>pcmAudioBuffers := []\<rparr>
      | Transcribed success transcript \<Rightarrow>
          if success \<and> transcript \<noteq> [] \<and> length (trim transcript) > 2
          then st\<lparr>isSpeaking := True, triggered := triggered st @ [trim transcript]\<rparr>
          else st\<lparr>pcmAudioBuffers := []\<rparr>)"

text \<open>
  \<^verbatim>\<open>__triggerBotResponse\<close> returns when the response has been generated and spoken, or
  throws. On return the 10 second timer is set; on a throw the flag is cleared at once.
  The batch path then clears its buffers.
\<close>

definition afterTrigger :: "int \<Rightarrow> unit attempt \<Rightarrow> voice_state \<Rightarrow> voice_state" where
  "afterTrigger now response st =
     (case response of
        Returns _ \<Rightarrow> st\<lparr>readyTimers := readyTimers st @ [now + 10000]\<rparr>
      | Throws \<Rightarrow> st\<lparr>isSpeaking := False\<rparr>)"

definition afterBatchTrigger :: "int \<Rightarrow> unit attempt \<Rightarrow> voice_state \<Rightarrow> voice_state" where
  "afterBatchTrigger now response st = (afterTrigger now response st)\<lparr>pcmAudioBuffers := []\<rparr>"

text \<open>Time passes: every timer that is due fires and clears the flag.\<close>

definition advanceTo :: "int \<Rightarrow> voice_state \<Rightarrow> voice_state" where
  "advanceTo now st =
     (if list_ex (\<lambda>due. due \<le> now) (readyTimers st)
      then st\<lparr>isSpeaking := False, readyTimers := filter (\<lambda>due. now < due) (readyTimers st)\<rparr>
      else st)"

text \<open>The fallback: \<^verbatim>\<open>recognition.onresult\<close> of the microphone recognition.\<close>

definition onresult :: "string \<Rightarrow> voice_state \<Rightarrow> voice_state" where
  "onresult transcript st =
     (if isSpeaking st then st
      else
        (let trimmedTranscript = trim transcript
         in if length trimmedTranscript < 2 then st
            else st\<lparr>isSpeaking := True, triggered := triggered st @ [trimmedTranscript]\<rparr>))"

text \<open>The callback of the streaming connection, on the host: it calls
  \<^verbatim>\<open>__triggerBotResponse\<close> through the page and does not see \<^verbatim>\<open>isSpeaking\<close>.\<close>

definition onTranscript :: "string \<Rightarrow> bool \<Rightarrow> voice_state \<Rightarrow> voice_state" where
  "onTranscript transcript isFinal st =
     (if isFinal \<and> length (trim transcript) > 2
      then st\<lparr>triggered := triggered st @ [trim transcript]\<rparr>
      else st)"





section \<open>Speaking in the meeting (speakInMeeting)\<close>

text \<open>
  The collaborators of \<^verbatim>\<open>speakInMeeting\<close> in the order it uses them: the configured
  API key, the console subscription, the constructor of the TTS service, the synthesis,
  the creation of the TTS stream in the page (its \<^verbatim>\<open>success\<close> flag), the attempts to
  enable the microphone (they catch their own errors, so only their result counts), the
  waits, the playback in the page (\<^verbatim>\<open>success\<close> and \<^verbatim>\<open>audioReplaced\<close>), and the read of
  the voice-listening flag. The body is what stands inside the \<^verbatim>\<open>try\<close> block: it
  returns or throws, and writes warnings and errors to the log.
\<close>

record speak_env =
  deepgramApiKey :: bool
  consoleSubscription :: "unit attempt"
  ttsService :: "unit attempt"
  textToSpeech :: "unit attempt"
  ttsStreamCreated :: "bool attempt"
  micEnabled :: bool
  waitAfterMic :: "unit attempt"
  waitsAroundToggle :: "unit attempt"
  playbackResult :: "(bool \<times> bool) attempt"
  waitAfterPlayback :: "unit attempt"
  isVoiceListeningActive :: "bool attempt"

definition speakPlayback :: "speak_env \<Rightarrow> string list \<Rightarrow> (string + unit) \<times> string list" where
  "speakPlayback env entries =
     (case playbackResult env of
        Throws \<Rightarrow> (Inl ''page.evaluate'', entries)
      | Returns (success, audioReplaced) \<Rightarrow>
          (let entries1 = entries @ (if \<not> success then [''TTS playback failed'']
                             else if audioReplaced then []
                             else [''TTS audio played but may not have been injected into Google Meet''])
           in case waitAfterPlayback env of
                Throws \<Rightarrow> (Inl ''page.waitForTimeout'', entries1)
              | Returns _ \<Rightarrow>
                  (case isVoiceListeningActive env of
                     Throws \<Rightarrow> (Inl ''page.evaluate'', entries1)
                   | Returns _ \<Rightarrow> (Inr (), entries1 @ [''Successfully spoke text in meeting'']))))"

definition speakBody :: "speak_env \<Rightarrow> string \<Rightarrow> (string + unit) \<times> string list" where
  "speakBody env text =
     (if \<not> deepgramApiKey env then (Inr (), [''Deepgram API key not configured, skipping TTS''])
      else
     (case consoleSubscription env of
        Throws \<Rightarrow> (Inl ''page.on'', [])
      | Returns _ \<Rightarrow>
     (case ttsService env of
        Throws \<Rightarrow> (Inl ''DEEPGRAM_API_KEY environment variable is required'', [])
      | Returns _ \<Rightarrow>
     (case textToSpeech env of
        Throws \<Rightarrow> (Inl ''textToSpeech'', [])
      | Returns _ \<Rightarrow>
     (case ttsStreamCreated env of
        Throws \<Rightarrow> (Inl ''page.evaluate'', [])
      | Returns False \<Rightarrow> (Inr (), [''Failed to create TTS stream''])
      | Returns True \<Rightarrow>
          (let entries = (if \<not> micEnabled env
                      then [''Could not enable microphone button, but will attempt to inject audio anyway'']
                      else [])
           in case waitAfterMic env of
                Throws \<Rightarrow> (Inl ''page.waitForTimeout'', entries)
              | Returns _ \<Rightarrow>
                  (case waitsAroundToggle env of
                     Throws \<Rightarrow> (Inl ''page.waitForTimeout'', entries)
                   | Returns _ \<Rightarrow> speakPlayback env entries)))))))"

text \<open>The whole operation: the \<^verbatim>\<open>catch\<close> block logs the error and returns.\<close>

definition speakInMeeting :: "speak_env \<Rightarrow> string \<Rightarrow> unit attempt \<times> string list" where
  "speakInMeeting env text =
     (case speakBody env text of
        (Inl error, entries) \<Rightarrow> (Returns (), entries @ [''Error speaking in meeting''])
      | (Inr _, entries) \<Rightarrow> (Returns (), entries))"

section \<open>Example observations\<close>

text \<open>Concrete pages, polls and sessions at which the theorems below are evaluated.\<close>

definition meetPage :: classify_obs where
  "meetPage = \<lparr>pageUrl = Returns ''https://meet.google.com/abc-defg-hij'',
               detectUrl = Returns ''https://meet.google.com/abc-defg-hij'',
               signInHeading = Returns False\<rparr>"

definition signInPage :: classify_obs where
  "signInPage = \<lparr>pageUrl = Returns ''https://accounts.google.com/signin'',
                 detectUrl = Returns ''https://accounts.google.com/signin'',
                 signInHeading = Returns True\<rparr>"

definition otherPage :: classify_obs where
  "otherPage = \<lparr>pageUrl = Returns ''https://example.com/'',
                detectUrl = Returns ''https://example.com/'',
                signInHeading = Returns False\<rparr>"

definition brokenPage :: classify_obs where
  "brokenPage = \<lparr>pageUrl = Throws, detectUrl = Throws, signInHeading = Throws\<rparr>"

definition admittingPoll :: poll_obs where
  "admittingPoll = \<lparr>peopleElement = True, callButtonElement = True,
      hostWaitingText = Returns False, requestTimeoutText = Returns False,
      buttonLabels = Returns [None, Some ''People - 2 joined''], deniedText = Returns False\<rparr>"

text \<open>
  A poll in the lobby after the host has declined: the "Leave call" button is present, the
  request-denied text is shown, no participant count is visible. A poll that shows a
  people button with a count of zero.
\<close>

definition deniedInLobbyPoll :: poll_obs where
  "deniedInLobbyPoll = \<lparr>peopleElement = False, callButtonElement = True,
      hostWaitingText = Returns False, requestTimeoutText = Returns False,
      buttonLabels = Returns [Some ''Leave call''], deniedText = Returns True\<rparr>"

definition zeroCountPoll :: poll_obs where
  "zeroCountPoll = \<lparr>peopleElement = False, callButtonElement = True,
      hostWaitingText = Returns False, requestTimeoutText = Returns False,
      buttonLabels = Returns [Some ''Leave call'', Some ''People - 0 joined''],
      deniedText = Returns False\<rparr>"

text \<open>A recording page with two tracks and all timers set, in a browser whose media
  recorder ignores \<^verbatim>\<open>stop()\<close> when inactive; and a host waiting for the recording.\<close>

definition examplePage :: page_state where
  "examplePage = \<lparr>recorderActive = True, inactiveStopThrows = False, trackLive = [True, True],
      timeoutId = Some 7, inactivityParticipantDetectionTimeout = Some 3,
      inactivitySilenceDetectionTimeout = Some 4, loneTest = Some 9,
      isOnValidGoogleMeetPageInterval = Some 5, dismissModalsInterval = Some 6,
      pendingTimers = {5, 6, 7, 9}, pageSecretId = ''s3cr3t'', effects = []\<rparr>"

definition exampleHost :: "nat list host_state" where
  "exampleHost = \<lparr>slightlySecretId = ''s3cr3t'', tempFile = [], waitingPromise = Some False,
      hostLog = []\<rparr>"

text \<open>Analyser frames: a quiet one (mean 2) and a loud one (mean 150).\<close>

definition quietFrame :: analysis where
  "quietFrame = Frame [0, 4]"

definition loudFrame :: analysis where
  "loudFrame = Frame [200, 100]"

text \<open>
  Frames of the script processor (4096 samples, 256 ms at 16 kHz): speech at amplitude
  0.1, which passes the activity test, and digital silence, which does not. A capture that
  starts at time 1700000000000: six frames of speech (1.5 s), then silence; ticks after
  2 s and after 4 s. The same capture with silence only. A state in which the bot is
  responding and one in which a short, stale batch is buffered.
\<close>

definition speechFrame :: "real list" where
  "speechFrame = replicate 4096 (1 / 10)"

definition silentFrame :: "real list" where
  "silentFrame = replicate 4096 0"



definition respondingState :: voice_state where
  "respondingState = \<lparr>isSpeaking = True, pcmAudioBuffers = replicate 10 speechFrame,
      lastTranscriptionTime = 1700000000000, lastAudioActivityTime = 1700000005000,
      submitted = [], triggered = [''hello there''], readyTimers = []\<rparr>"

text \<open>
  Two responses in flight: the first response call returned at time 1700000000000 and set
  its timer; a transcription of the batch path then arrived while the flag was set, and
  its response call returned 5 s later.
\<close>

definition twoInFlight :: voice_state where
  "twoInFlight =
     afterBatchTrigger 1700000005000 (Returns ())
       (onTranscription (Transcribed True ''thank you'')
          (afterTrigger 1700000000000 (Returns ()) respondingState))"


text \<open>A speak operation whose synthesis fails, and one whose playback fails in the page.\<close>

definition synthesisFails :: speak_env where
  "synthesisFails = \<lparr>deepgramApiKey = True, consoleSubscription = Returns (),
      ttsService = Returns (), textToSpeech = Throws, ttsStreamCreated = Returns True,
      micEnabled = True, waitAfterMic = Returns (), waitsAroundToggle = Returns (),
      playbackResult = Returns (True, True), waitAfterPlayback = Returns (),
      isVoiceListeningActive = Returns True\<rparr>"

definition playbackFails :: speak_env where
  "playbackFails = synthesisFails\<lparr>textToSpeech := Returns (), micEnabled := False,
      playbackResult := Throws\<rparr>"

text \<open>
  Polls that show a lobby text with the baseline evidence present: the host-waiting text
  together with the request-denied text; the request-timed-out text alone; both lobby
  texts at once.
\<close>

definition hostWaitsDeniedPoll :: poll_obs where
  "hostWaitsDeniedPoll = \<lparr>peopleElement = True, callButtonElement = True,
      hostWaitingText = Returns True, requestTimeoutText = Returns False,
      buttonLabels = Returns [Some ''People'', Some ''Leave call''], deniedText = Returns True\<rparr>"

definition requestTimedOutPoll :: poll_obs where
  "requestTimedOutPoll = \<lparr>peopleElement = False, callButtonElement = True,
      hostWaitingText = Returns False, requestTimeoutText = Returns True,
      buttonLabels = Returns [Some ''Leave call''], deniedText = Returns False\<rparr>"

definition bothLobbyTextsPoll :: poll_obs where
  "bothLobbyTextsPoll = \<lparr>peopleElement = False, callButtonElement = True,
      hostWaitingText = Returns True, requestTimeoutText = Returns True,
      buttonLabels = Returns [Some ''Leave call''], deniedText = Returns False\<rparr>"

definition goodMeeting :: jm_env where
  "goodMeeting = \<lparr>launch = Returns (), classification = meetPage, nameEntry = Returns (),
      askToJoin = Returns (), requestDeniedText = ''denied your request'',
      lobbyPolls = [admittingPoll], lobbyBodyText = Returns [], recording = Returns ()\<rparr>"

section \<open>Theorems\<close>

subsection \<open>The status history\<close>

lemma joinMeeting_cases:
  "(joinMeeting env [processing] = (Inr (), [processing, joined, finished])) \<or>
   (\<exists>e. joinMeeting env [processing] = (Inl e, [processing])) \<or>
   (\<exists>e. joinMeeting env [processing] = (Inl e, [processing, joined]))"
  by (simp add: joinMeeting_def Let_def split: attempt.split sum.split)

lemma splice_finished:
  "splice1 [processing, joined, finished] 2 failed = [processing, joined, failed]"
  by (simp add: splice1_def Let_def)

lemma join_reports:
  "reported (join env) \<in>
     {[[processing, failed]], [[processing, joined, failed]], [[processing, joined, finished]],
      [[processing, joined, finished], [processing, joined, finished]],
      [[processing, joined, failed], [processing, joined, failed, failed]]}"
  using joinMeeting_cases [of "meeting env"]
  by (auto simp: join_def joinCatch_def arr_includes_def splice_finished Let_def
      split: attempt.splits if_splits)

lemma join_completed_falsy:
  assumes "fst (joinMeeting (meeting env) [processing]) = Inr ()"
      and "uploadResult env = Returns False"
  shows "snd (joinMeeting (meeting env) [processing]) = [processing, joined, finished]"
    and "hd (reported (join env)) = [processing, joined, failed]"
  using joinMeeting_cases [of "meeting env"] assms
  by (auto simp: join_def joinCatch_def arr_includes_def splice_finished Let_def
      split: attempt.splits if_splits)

lemma join_thrown:
  assumes "fst (joinMeeting (meeting env) [processing]) = Inl e"
  shows "finished \<notin> set (snd (joinMeeting (meeting env) [processing]))"
    and "reported (join env) = [snd (joinMeeting (meeting env) [processing]) @ [failed]]"
  using joinMeeting_cases [of "meeting env"] assms
  by (auto simp: join_def joinCatch_def arr_includes_def Let_def split: attempt.splits if_splits)

lemma joinCatch_last:
  "last (reported (joinCatch env e st reports)) = (if finished \<in> set st then st else st @ [failed])"
  by (simp add: joinCatch_def arr_includes_def Let_def split: attempt.splits)

lemma join_frame:
  assumes "h \<in> set (reported (join env))"
  shows "(take (length (snd (joinMeeting (meeting env) [processing]))) h
            = snd (joinMeeting (meeting env) [processing]) \<or>
          (fst (joinMeeting (meeting env) [processing]) = Inr () \<and> uploadResult env = Returns False \<and>
           take (length (snd (joinMeeting (meeting env) [processing]))) h
             = (snd (joinMeeting (meeting env) [processing]))
                 [nat (indexOf (snd (joinMeeting (meeting env) [processing])) finished) := failed])) \<and>
         (drop (length (snd (joinMeeting (meeting env) [processing]))) h = [] \<or>
          drop (length (snd (joinMeeting (meeting env) [processing]))) h = [failed])"
  using joinMeeting_cases [of "meeting env"] assms
  by (auto simp: join_def joinCatch_def arr_includes_def splice_finished Let_def
      split: attempt.splits if_splits)

lemma goodMeeting_run:
  "joinMeeting goodMeeting [processing] = (Inr (), [processing, joined, finished])"
  by (simp add: joinMeeting_def goodMeeting_def meetPage_def admittingPoll_def
      googleMeetPageStatus_def verifyItIsOnGoogleMeetPage_def afterClassification_def
      startsWith_def lobbyStage_def
      poll_def detectLobbyModeHostWaitingText_def participantCountDetected_def peopleButton_def
      isDigit_def isLineTerminator_def parseInt_def)

text \<open>
  C1. Every status history that \<^verbatim>\<open>join\<close> reports starts with \<open>processing\<close> and ends in
  \<open>finished\<close> or \<open>failed\<close>, and at least one history is reported. When
  \<^verbatim>\<open>joinMeeting\<close> completes and the upload result is falsy, the history reported first
  is the array left by \<^verbatim>\<open>joinMeeting\<close> with its \<open>finished\<close> entry replaced in place by
  \<open>failed\<close>. When \<^verbatim>\<open>joinMeeting\<close> throws, \<open>finished\<close> is not in the array and the one
  history reported is the array with \<open>failed\<close> appended; the \<^verbatim>\<open>catch\<close> block appends
  \<open>failed\<close> exactly when \<open>finished\<close> is absent. Nothing else is rewritten: every
  reported history is the array left by \<^verbatim>\<open>joinMeeting\<close>, possibly with that one
  replacement, followed by at most one appended \<open>failed\<close>.
\<close>

theorem status_history_terminal:
  "reported (join env) \<noteq> [] \<and>
   (\<forall>h \<in> set (reported (join env)).
      h \<noteq> [] \<and> hd h = processing \<and> (last h = finished \<or> last h = failed)) \<and>
   (fst (joinMeeting (meeting env) [processing]) = Inr () \<and> uploadResult env = Returns False \<longrightarrow>
      snd (joinMeeting (meeting env) [processing]) = [processing, joined, finished] \<and>
      hd (reported (join env)) = [processing, joined, failed]) \<and>
   (\<forall>e. fst (joinMeeting (meeting env) [processing]) = Inl e \<longrightarrow>
      finished \<notin> set (snd (joinMeeting (meeting env) [processing])) \<and>
      reported (join env) = [snd (joinMeeting (meeting env) [processing]) @ [failed]]) \<and>
   (\<forall>e st reports.
      last (reported (joinCatch env e st reports)) = (if finished \<in> set st then st else st @ [failed])) \<and>
   (\<forall>h \<in> set (reported (join env)).
      (take (length (snd (joinMeeting (meeting env) [processing]))) h
         = snd (joinMeeting (meeting env) [processing]) \<or>
       (fst (joinMeeting (meeting env) [processing]) = Inr () \<and> uploadResult env = Returns False \<and>
        take (length (snd (joinMeeting (meeting env) [processing]))) h
          = (snd (joinMeeting (meeting env) [processing]))
              [nat (indexOf (snd (joinMeeting (meeting env) [processing])) finished) := failed])) \<and>
      (drop (length (snd (joinMeeting (meeting env) [processing]))) h = [] \<or>
       drop (length (snd (joinMeeting (meeting env) [processing]))) h = [failed]))"
proof -
  have nonempty: "reported (join env) \<noteq> []"
    using join_reports [of env] by auto
  have terminal: "\<forall>h \<in> set (reported (join env)).
      h \<noteq> [] \<and> hd h = processing \<and> (last h = finished \<or> last h = failed)"
    using join_reports [of env] by auto
  have falsy: "fst (joinMeeting (meeting env) [processing]) = Inr () \<and> uploadResult env = Returns False \<longrightarrow>
      snd (joinMeeting (meeting env) [processing]) = [processing, joined, finished] \<and>
      hd (reported (join env)) = [processing, joined, failed]"
    using join_completed_falsy [of env] by blast
  have thrown: "\<forall>e. fst (joinMeeting (meeting env) [processing]) = Inl e \<longrightarrow>
      finished \<notin> set (snd (joinMeeting (meeting env) [processing])) \<and>
      reported (join env) = [snd (joinMeeting (meeting env) [processing]) @ [failed]]"
    using join_thrown [of env] by blast
  have catch_rule: "\<forall>e st reports.
      last (reported (joinCatch env e st reports)) = (if finished \<in> set st then st else st @ [failed])"
    using joinCatch_last by blast
  show ?thesis
    using nonempty terminal falsy thrown catch_rule join_frame [of _ env] by blast
qed

theorem status_history_terminal_witness:
  "[processing, joined, failed]
     \<in> set (reported (join \<lparr>meeting = goodMeeting, uploadResult = Returns False,
                             patchInTry = Returns (), patchInCatch = Returns ()\<rparr>)) \<and>
   fst (joinMeeting goodMeeting [processing]) = Inr () \<and>
   hd (reported (join \<lparr>meeting = goodMeeting, uploadResult = Returns False,
                        patchInTry = Returns (), patchInCatch = Returns ()\<rparr>))
     = [processing, joined, failed] \<and>
   last [processing, joined, failed] = failed"
  using status_history_terminal [of "\<lparr>meeting = goodMeeting, uploadResult = Returns False,
                             patchInTry = Returns (), patchInCatch = Returns ()\<rparr>"]
  by (simp add: goodMeeting_run join_def arr_includes_def splice_finished Let_def)



subsection \<open>Waiting at the lobby\<close>

lemma firstDigits_found:
  assumes "isDigit d" and "\<forall>x \<in> set b. \<not> isLineTerminator x"
  shows "firstDigits (b @ d # c) \<noteq> None"
  using assms by (induction b) auto

lemma firstDigits_split:
  assumes "firstDigits s \<noteq> None"
  shows "\<exists>b d c. s = b @ d # c \<and> isDigit d \<and> (\<forall>x \<in> set b. \<not> isLineTerminator x)"
  using assms
proof (induction s)
  case Nil
  then show ?case by simp
next
  case (Cons a s)
  show ?case
  proof (cases "isDigit a")
    case True
    then have "a # s = [] @ a # s \<and> isDigit a \<and> (\<forall>x \<in> set []. \<not> isLineTerminator x)"
      by simp
    then show ?thesis by blast
  next
    case False
    then have nl: "\<not> isLineTerminator a" and rest: "firstDigits s \<noteq> None"
      using Cons.prems by (auto split: if_splits)
    from Cons.IH [OF rest] obtain b d c
      where h: "s = b @ d # c" "isDigit d" "\<forall>x \<in> set b. \<not> isLineTerminator x" by blast
    then have "a # s = (a # b) @ d # c \<and> isDigit d \<and> (\<forall>x \<in> set (a # b). \<not> isLineTerminator x)"
      using nl by simp
    then show ?thesis by blast
  qed
qed

lemma firstDigits_iff:
  "firstDigits s \<noteq> None \<longleftrightarrow>
     (\<exists>b d c. s = b @ d # c \<and> isDigit d \<and> (\<forall>x \<in> set b. \<not> isLineTerminator x))"
  using firstDigits_found firstDigits_split by blast

lemma startsWith_iff: "startsWith s p \<longleftrightarrow> (\<exists>r. s = p @ r)"
proof
  assume "startsWith s p"
  then have "s = p @ drop (length p) s"
    unfolding startsWith_def by (metis append_take_drop_id)
  then show "\<exists>r. s = p @ r" ..
next
  assume "\<exists>r. s = p @ r"
  then show "startsWith s p" unfolding startsWith_def by auto
qed

lemma matchPeopleCount_iff:
  "matchPeopleCount l \<noteq> None \<longleftrightarrow> (\<exists>a r. l = a @ ''People'' @ r \<and> firstDigits r \<noteq> None)"
proof (induction l)
  case Nil
  then show ?case by simp
next
  case (Cons x l)
  have tail: "(\<exists>a r. x # l = a @ ''People'' @ r \<and> firstDigits r \<noteq> None) \<longleftrightarrow>
      (\<exists>r. x # l = ''People'' @ r \<and> firstDigits r \<noteq> None) \<or>
      (\<exists>a r. l = a @ ''People'' @ r \<and> firstDigits r \<noteq> None)" (is "?A \<longleftrightarrow> ?B \<or> ?C")
  proof
    assume ?A
    then obtain a r where h: "x # l = a @ ''People'' @ r" "firstDigits r \<noteq> None" by blast
    show "?B \<or> ?C"
    proof (cases a)
      case Nil
      then show ?thesis using h by auto
    next
      case (Cons y a')
      then have "l = a' @ ''People'' @ r" using h by simp
      then show ?thesis using h(2) by blast
    qed
  next
    assume "?B \<or> ?C"
    then show ?A
    proof
      assume ?B
      then obtain r where "x # l = [] @ ''People'' @ r" "firstDigits r \<noteq> None" by auto
      then show ?A by blast
    next
      assume ?C
      then obtain a r where "l = a @ ''People'' @ r" "firstDigits r \<noteq> None" by blast
      then have "x # l = (x # a) @ ''People'' @ r" by simp
      then show ?A using \<open>firstDigits r \<noteq> None\<close> by blast
    qed
  qed
  show ?case
  proof (cases "startsWith (x # l) ''People''")
    case True
    then obtain r where r: "x # l = ''People'' @ r" using startsWith_iff by blast
    then have d: "drop 6 (x # l) = r" by simp
    show ?thesis
    proof (cases "firstDigits r")
      case None
      then have n: "\<not> (\<exists>r. x # l = ''People'' @ r \<and> firstDigits r \<noteq> None)" using r by auto
      have "matchPeopleCount (x # l) = matchPeopleCount l"
        using True d None by (simp del: drop_Cons')
      then have "matchPeopleCount (x # l) \<noteq> None \<longleftrightarrow> matchPeopleCount l \<noteq> None"
        by (simp only:)
      then show ?thesis using n tail Cons.IH by blast
    next
      case (Some m)
      then have "matchPeopleCount (x # l) = Some m" using True d by (simp del: drop_Cons')
      then have m: "matchPeopleCount (x # l) \<noteq> None" by (simp only: option.distinct not_False_eq_True)
      have "\<exists>r. x # l = ''People'' @ r \<and> firstDigits r \<noteq> None" using r Some by auto
      then show ?thesis using m tail by blast
    qed
  next
    case False
    then have n: "\<not> (\<exists>r. x # l = ''People'' @ r \<and> firstDigits r \<noteq> None)"
      using startsWith_iff by blast
    have "matchPeopleCount (x # l) = matchPeopleCount l" using False by simp
    then have "matchPeopleCount (x # l) \<noteq> None \<longleftrightarrow> matchPeopleCount l \<noteq> None"
      by (simp only:)
    then show ?thesis using n tail Cons.IH by blast
  qed
qed


lemma participantCountDetected_iff:
  "participantCountDetected buttons \<longleftrightarrow> (\<exists>l. Some l \<in> set buttons \<and> matchPeopleCount l \<noteq> None)"
proof -
  define P where "P = (\<lambda>b. case b of None \<Rightarrow> False
                        | Some label \<Rightarrow> label \<noteq> [] \<and> matchPeopleCount label \<noteq> None)"
  define Q where "Q = (case peopleButton buttons of
            None \<Rightarrow> False
          | Some ariaLabel \<Rightarrow>
              (case matchPeopleCount ariaLabel of
                 None \<Rightarrow> False
               | Some m \<Rightarrow> parseInt m \<ge> 1))"
  have unfold: "participantCountDetected buttons \<longleftrightarrow> Q \<or> list_ex P buttons"
    unfolding participantCountDetected_def P_def Q_def by simp
  have P_iff: "list_ex P buttons \<longleftrightarrow> (\<exists>l. Some l \<in> set buttons \<and> matchPeopleCount l \<noteq> None)"
  proof
    assume "list_ex P buttons"
    then obtain b where b: "b \<in> set buttons" "P b" unfolding list_ex_iff by blast
    from b(2) obtain l where "b = Some l" "matchPeopleCount l \<noteq> None"
      unfolding P_def by (cases b) auto
    then show "\<exists>l. Some l \<in> set buttons \<and> matchPeopleCount l \<noteq> None" using b(1) by blast
  next
    assume "\<exists>l. Some l \<in> set buttons \<and> matchPeopleCount l \<noteq> None"
    then obtain l where l: "Some l \<in> set buttons" "matchPeopleCount l \<noteq> None" by blast
    then have "l \<noteq> []" by auto
    then have "P (Some l)" using l(2) unfolding P_def by simp
    then show "list_ex P buttons" using l(1) unfolding list_ex_iff by blast
  qed
  have Q_imp: "Q \<Longrightarrow> \<exists>l. Some l \<in> set buttons \<and> matchPeopleCount l \<noteq> None"
  proof -
    assume Q
    then obtain l where l: "peopleButton buttons = Some l" "matchPeopleCount l \<noteq> None"
      unfolding Q_def by (auto split: option.splits)
    obtain rest where "filter (\<lambda>b. case b of None \<Rightarrow> False | Some l \<Rightarrow> startsWith l ''People'') buttons
        = Some l # rest"
      using l(1) by (auto simp: peopleButton_def split: list.splits)
    then have "Some l \<in> set (filter (\<lambda>b. case b of None \<Rightarrow> False | Some l \<Rightarrow> startsWith l ''People'') buttons)"
      by (simp only: list.set_intros)
    then have "Some l \<in> set buttons" by (simp only: set_filter) blast
    then show ?thesis using l(2) by blast
  qed
  show ?thesis using unfold P_iff Q_imp by blast
qed

lemma poll_admits_iff:
  "poll obs = Resolve True \<longleftrightarrow>
     (peopleElement obs \<or> callButtonElement obs) \<and>
     detectLobbyModeHostWaitingText obs \<noteq> WAITING_FOR_HOST_TO_ADMIT_BOT \<and>
     detectLobbyModeHostWaitingText obs \<noteq> WAITING_REQUEST_TIMEOUT \<and>
     (\<exists>buttons. buttonLabels obs = Returns buttons \<and> participantCountDetected buttons)"
  by (auto simp: poll_def deniedCheck_def Let_def split: lobby_mode.splits attempt.splits if_splits)

lemma poll_fails_iff:
  "poll obs = Resolve False \<longleftrightarrow>
     ((peopleElement obs \<or> callButtonElement obs) \<and>
        detectLobbyModeHostWaitingText obs = WAITING_REQUEST_TIMEOUT) \<or>
     ((\<not> (peopleElement obs \<or> callButtonElement obs) \<or>
        detectLobbyModeHostWaitingText obs = WAITING_FOR_HOST_TO_ADMIT_BOT) \<and>
      deniedText obs = Returns True)"
  by (auto simp: poll_def deniedCheck_def Let_def split: lobby_mode.splits attempt.splits if_splits)

lemma waitAtLobbyPromise_iff:
  "waitAtLobbyPromise polls \<longleftrightarrow>
     (\<exists>i < length polls. poll (polls ! i) = Resolve True \<and> (\<forall>j < i. poll (polls ! j) = KeepWaiting))"
proof (induction polls)
  case Nil
  then show ?case by simp
next
  case (Cons obs rest)
  show ?case
  proof (cases "poll obs")
    case (Resolve b)
    have "(\<exists>i < length (obs # rest). poll ((obs # rest) ! i) = Resolve True \<and>
             (\<forall>j < i. poll ((obs # rest) ! j) = KeepWaiting)) \<longleftrightarrow> b"
    proof
      assume "\<exists>i < length (obs # rest). poll ((obs # rest) ! i) = Resolve True \<and>
             (\<forall>j < i. poll ((obs # rest) ! j) = KeepWaiting)"
      then obtain i where i: "poll ((obs # rest) ! i) = Resolve True"
          "\<forall>j < i. poll ((obs # rest) ! j) = KeepWaiting" by blast
      show b
      proof (cases i)
        case 0
        then show ?thesis using i(1) Resolve by simp
      next
        case (Suc k)
        then have "poll ((obs # rest) ! 0) = KeepWaiting" using i(2) by blast
        then show ?thesis using Resolve by simp
      qed
    next
      assume b
      then have "0 < length (obs # rest) \<and> poll ((obs # rest) ! 0) = Resolve True \<and>
          (\<forall>j < 0. poll ((obs # rest) ! j) = KeepWaiting)" using Resolve by simp
      then show "\<exists>i < length (obs # rest). poll ((obs # rest) ! i) = Resolve True \<and>
             (\<forall>j < i. poll ((obs # rest) ! j) = KeepWaiting)" by blast
    qed
    then show ?thesis using Resolve by simp
  next
    case KeepWaiting
    have "(\<exists>i < length (obs # rest). poll ((obs # rest) ! i) = Resolve True \<and>
             (\<forall>j < i. poll ((obs # rest) ! j) = KeepWaiting)) \<longleftrightarrow>
          (\<exists>i < length rest. poll (rest ! i) = Resolve True \<and> (\<forall>j < i. poll (rest ! j) = KeepWaiting))"
      (is "?L \<longleftrightarrow> ?R")
    proof
      assume ?L
      then obtain i where i: "i < length (obs # rest)" "poll ((obs # rest) ! i) = Resolve True"
          "\<forall>j < i. poll ((obs # rest) ! j) = KeepWaiting" by blast
      then obtain k where k: "i = Suc k" using KeepWaiting by (cases i) auto
      have "\<forall>j < k. poll (rest ! j) = KeepWaiting"
      proof (intro allI impI)
        fix j assume "j < k"
        then have "Suc j < i" using k by simp
        then have "poll ((obs # rest) ! Suc j) = KeepWaiting" using i(3) by blast
        then show "poll (rest ! j) = KeepWaiting" by simp
      qed
      then show ?R using i k by auto
    next
      assume ?R
      then obtain i where i: "i < length rest" "poll (rest ! i) = Resolve True"
          "\<forall>j < i. poll (rest ! j) = KeepWaiting" by blast
      have "\<forall>j < Suc i. poll ((obs # rest) ! j) = KeepWaiting"
      proof (intro allI impI)
        fix j assume "j < Suc i"
        then show "poll ((obs # rest) ! j) = KeepWaiting"
          using i(3) KeepWaiting by (cases j) auto
      qed
      then have "Suc i < length (obs # rest) \<and> poll ((obs # rest) ! Suc i) = Resolve True \<and>
          (\<forall>j < Suc i. poll ((obs # rest) ! j) = KeepWaiting)" using i by simp
      then show ?L by blast
    qed
    then show ?thesis using KeepWaiting Cons.IH by simp
  qed
qed

lemma admissionOutcome_cases:
  "admissionOutcome D polls body =
     (if waitAtLobbyPromise polls then Admitted
      else if str_includes body D then Denied else TimedOut)"
  by (simp add: admissionOutcome_def lobbyStage_def Let_def)


lemma participantCountDetected_label:
  "participantCountDetected buttons \<longleftrightarrow>
     (\<exists>l a b d c. Some l \<in> set buttons \<and> l = a @ ''People'' @ b @ d # c \<and> isDigit d \<and>
        (\<forall>x \<in> set b. \<not> isLineTerminator x))"
proof -
  have "\<And>l. matchPeopleCount l \<noteq> None \<longleftrightarrow>
      (\<exists>a b d c. l = a @ ''People'' @ b @ d # c \<and> isDigit d \<and> (\<forall>x \<in> set b. \<not> isLineTerminator x))"
    unfolding matchPeopleCount_iff firstDigits_iff by blast
  then show ?thesis unfolding participantCountDetected_iff by blast
qed

lemma poll_examples:
  "poll admittingPoll = Resolve True"
  "poll deniedInLobbyPoll = KeepWaiting"
  "poll zeroCountPoll = Resolve True"
  "poll hostWaitsDeniedPoll = Resolve False"
  "poll requestTimedOutPoll = Resolve False"
  "poll bothLobbyTextsPoll = KeepWaiting"
  by code_simp+

lemma probe_examples:
  "peopleButton [None, Some ''Leave call'', Some ''People - 12 joined''] = Some ''People - 12 joined''"
  "matchPeopleCount ''People - 12 joined'' = Some ''12''"
  "parseInt ''12'' = 12"
  "matchPeopleCount ''People - 0 joined'' = Some ''0''"
  "participantCountDetected [Some ''Leave call'', Some ''People - 0 joined'']"
  "\<not> participantCountDetected [Some ''People'', Some ''Leave call'', None]"
  by code_simp+

lemma detect_lobby_text:
  "(detectLobbyModeHostWaitingText obs = WAITING_FOR_HOST_TO_ADMIT_BOT \<longleftrightarrow>
      hostWaitingText obs = Returns True) \<and>
   (detectLobbyModeHostWaitingText obs = WAITING_REQUEST_TIMEOUT \<longleftrightarrow>
      hostWaitingText obs = Returns False \<and> requestTimeoutText obs = Returns True) \<and>
   (detectLobbyModeHostWaitingText obs = LOBBY_MODE_NOT_ACTIVE \<longleftrightarrow>
      hostWaitingText obs = Returns False \<and> requestTimeoutText obs = Returns False) \<and>
   (detectLobbyModeHostWaitingText obs = UNABLE_TO_DETECT_LOBBY_MODE \<longleftrightarrow>
      hostWaitingText obs = Throws \<or>
      (hostWaitingText obs = Returns False \<and> requestTimeoutText obs = Throws))"
  by (auto simp: detectLobbyModeHostWaitingText_def split: attempt.splits bool.splits)

lemma poll_admits_cues:
  "poll obs = Resolve True \<longleftrightarrow>
     (peopleElement obs \<or> callButtonElement obs) \<and>
     hostWaitingText obs \<noteq> Returns True \<and>
     \<not> (hostWaitingText obs = Returns False \<and> requestTimeoutText obs = Returns True) \<and>
     (\<exists>buttons. buttonLabels obs = Returns buttons \<and> participantCountDetected buttons)"
  unfolding poll_admits_iff using detect_lobby_text [of obs] by blast

lemma poll_fails_cues:
  "poll obs = Resolve False \<longleftrightarrow>
     ((peopleElement obs \<or> callButtonElement obs) \<and>
        hostWaitingText obs = Returns False \<and> requestTimeoutText obs = Returns True) \<or>
     ((\<not> (peopleElement obs \<or> callButtonElement obs) \<or> hostWaitingText obs = Returns True) \<and>
      deniedText obs = Returns True)"
  unfolding poll_fails_iff using detect_lobby_text [of obs] by blast

lemma people_count_suffices:
  assumes "peopleButton buttons = Some l" and "matchPeopleCount l = Some m" and "1 \<le> parseInt m"
  shows "participantCountDetected buttons"
  using assms by (simp add: participantCountDetected_def)

text \<open>
  C3, as the claim states it, fails. A poll that sees the "Leave call" button (baseline
  evidence) and the request-denied text, with no lobby text and no participant count,
  does not resolve the wait: it keeps waiting, and a later poll that sees a participant
  count admits the bot, although the denial cue was seen first.
\<close>

theorem denial_cue_with_baseline_ignored:
  "callButtonElement deniedInLobbyPoll \<and> deniedText deniedInLobbyPoll = Returns True \<and>
   poll deniedInLobbyPoll = KeepWaiting \<and>
   waitAtLobbyPromise [deniedInLobbyPoll, admittingPoll] = True \<and>
   admissionOutcome ''denied your request'' [deniedInLobbyPoll, admittingPoll] ''Meeting details'' = Admitted"
  by code_simp

text \<open>
  C3, amended. A poll admits exactly when baseline evidence (the people button or the
  leave-call button) is present, the host-waiting text is not shown, the
  request-timed-out text is not found shown after the host-waiting text was found absent,
  and the participant-count probe succeeds; a count of at least 1 on the people button
  makes the probe succeed, a successful probe has seen a button label with "People"
  followed on the same line by a digit, and baseline evidence alone never admits. A poll
  fails the wait exactly when baseline evidence is present, the host-waiting text is
  absent and the request-timed-out text is shown, or when the denial text is shown and
  either baseline evidence is absent or the host-waiting text is shown; elsewhere the
  denial text is not inspected. The lobby state detected is "waiting for the host" when
  that text is shown, "request timed out" when it is absent and the time-out text is
  shown, "not active" when both are absent, and "unable to detect" when a read throws.
  The wait succeeds exactly when some poll before the timeout admits and every earlier
  poll kept waiting. The outcome is Admitted on success; after a failing poll or the
  timeout it is Denied when the body text read afterwards includes the request-denied
  text, and TimedOut otherwise.
\<close>

theorem lobby_wait_outcomes:
  "(poll obs = Resolve True \<longleftrightarrow>
      (peopleElement obs \<or> callButtonElement obs) \<and>
      hostWaitingText obs \<noteq> Returns True \<and>
      \<not> (hostWaitingText obs = Returns False \<and> requestTimeoutText obs = Returns True) \<and>
      (\<exists>buttons. buttonLabels obs = Returns buttons \<and> participantCountDetected buttons)) \<and>
   ((\<exists>l m. peopleButton buttons = Some l \<and> matchPeopleCount l = Some m \<and> 1 \<le> parseInt m) \<longrightarrow>
      participantCountDetected buttons) \<and>
   (participantCountDetected buttons \<longrightarrow>
      (\<exists>l a b d c. Some l \<in> set buttons \<and> l = a @ ''People'' @ b @ d # c \<and> isDigit d \<and>
         (\<forall>x \<in> set b. \<not> isLineTerminator x))) \<and>
   (poll obs = Resolve False \<longleftrightarrow>
      ((peopleElement obs \<or> callButtonElement obs) \<and>
         hostWaitingText obs = Returns False \<and> requestTimeoutText obs = Returns True) \<or>
      ((\<not> (peopleElement obs \<or> callButtonElement obs) \<or> hostWaitingText obs = Returns True) \<and>
       deniedText obs = Returns True)) \<and>
   (detectLobbyModeHostWaitingText obs = WAITING_FOR_HOST_TO_ADMIT_BOT \<longleftrightarrow>
      hostWaitingText obs = Returns True) \<and>
   (detectLobbyModeHostWaitingText obs = WAITING_REQUEST_TIMEOUT \<longleftrightarrow>
      hostWaitingText obs = Returns False \<and> requestTimeoutText obs = Returns True) \<and>
   (detectLobbyModeHostWaitingText obs = LOBBY_MODE_NOT_ACTIVE \<longleftrightarrow>
      hostWaitingText obs = Returns False \<and> requestTimeoutText obs = Returns False) \<and>
   (detectLobbyModeHostWaitingText obs = UNABLE_TO_DETECT_LOBBY_MODE \<longleftrightarrow>
      hostWaitingText obs = Throws \<or>
      (hostWaitingText obs = Returns False \<and> requestTimeoutText obs = Throws)) \<and>
   (waitAtLobbyPromise polls \<longleftrightarrow>
      (\<exists>i < length polls. poll (polls ! i) = Resolve True \<and>
         (\<forall>j < i. poll (polls ! j) = KeepWaiting))) \<and>
   admissionOutcome D polls body =
      (if waitAtLobbyPromise polls then Admitted
       else if str_includes body D then Denied else TimedOut)"
proof -
  have suff: "(\<exists>l m. peopleButton buttons = Some l \<and> matchPeopleCount l = Some m \<and> 1 \<le> parseInt m) \<longrightarrow>
      participantCountDetected buttons"
    using people_count_suffices [of buttons] by blast
  have nec: "participantCountDetected buttons \<longrightarrow>
      (\<exists>l a b d c. Some l \<in> set buttons \<and> l = a @ ''People'' @ b @ d # c \<and> isDigit d \<and>
         (\<forall>x \<in> set b. \<not> isLineTerminator x))"
    using participantCountDetected_label [of buttons] by blast
  show ?thesis
    using poll_admits_cues [of obs] suff nec poll_fails_cues [of obs] detect_lobby_text [of obs]
      waitAtLobbyPromise_iff [of polls] admissionOutcome_cases [of D polls body]
    by blast
qed

theorem lobby_wait_outcomes_witness:
  "(1::nat) < length [deniedInLobbyPoll, admittingPoll] \<and>
   poll ([deniedInLobbyPoll, admittingPoll] ! 1) = Resolve True \<and>
   poll ([deniedInLobbyPoll, admittingPoll] ! 0) = KeepWaiting \<and>
   waitAtLobbyPromise [deniedInLobbyPoll, admittingPoll] \<and>
   admissionOutcome ''denied your request'' [deniedInLobbyPoll, admittingPoll] ''Meeting details''
     = Admitted \<and>
   callButtonElement requestTimedOutPoll \<and>
   hostWaitingText requestTimedOutPoll = Returns False \<and>
   requestTimeoutText requestTimedOutPoll = Returns True \<and>
   poll requestTimedOutPoll = Resolve False \<and>
   hostWaitingText hostWaitsDeniedPoll = Returns True \<and>
   deniedText hostWaitsDeniedPoll = Returns True \<and>
   poll hostWaitsDeniedPoll = Resolve False \<and>
   detectLobbyModeHostWaitingText bothLobbyTextsPoll = WAITING_FOR_HOST_TO_ADMIT_BOT \<and>
   poll bothLobbyTextsPoll = KeepWaiting"
proof -
  have len: "(1::nat) < length [deniedInLobbyPoll, admittingPoll]" by simp
  have admit: "poll ([deniedInLobbyPoll, admittingPoll] ! 1) = Resolve True"
    by (simp add: poll_examples)
  have first: "poll ([deniedInLobbyPoll, admittingPoll] ! 0) = KeepWaiting"
    by (simp add: poll_examples)
  have before: "\<forall>j < 1. poll ([deniedInLobbyPoll, admittingPoll] ! j) = KeepWaiting"
    by (simp add: poll_examples)
  have "\<exists>i < length [deniedInLobbyPoll, admittingPoll].
          poll ([deniedInLobbyPoll, admittingPoll] ! i) = Resolve True \<and>
          (\<forall>j < i. poll ([deniedInLobbyPoll, admittingPoll] ! j) = KeepWaiting)"
    using len admit before by blast
  then have wait: "waitAtLobbyPromise [deniedInLobbyPoll, admittingPoll] \<and>
      admissionOutcome ''denied your request'' [deniedInLobbyPoll, admittingPoll] ''Meeting details''
        = Admitted"
    using lobby_wait_outcomes [of admittingPoll "[]" "[deniedInLobbyPoll, admittingPoll]"
        "''denied your request''" "''Meeting details''"]
    by presburger
  have t: "callButtonElement requestTimedOutPoll"
      "hostWaitingText requestTimedOutPoll = Returns False"
      "requestTimeoutText requestTimedOutPoll = Returns True"
    by (simp_all add: requestTimedOutPoll_def)
  have timed: "poll requestTimedOutPoll = Resolve False"
    using lobby_wait_outcomes [of requestTimedOutPoll "[]" "[]" "[]" "[]"] t by blast
  have h: "hostWaitingText hostWaitsDeniedPoll = Returns True"
      "deniedText hostWaitsDeniedPoll = Returns True"
    by (simp_all add: hostWaitsDeniedPoll_def)
  have denied: "poll hostWaitsDeniedPoll = Resolve False"
    using lobby_wait_outcomes [of hostWaitsDeniedPoll "[]" "[]" "[]" "[]"] h by blast
  have b: "hostWaitingText bothLobbyTextsPoll = Returns True"
    by (simp add: bothLobbyTextsPoll_def)
  have both: "detectLobbyModeHostWaitingText bothLobbyTextsPoll = WAITING_FOR_HOST_TO_ADMIT_BOT"
    using lobby_wait_outcomes [of bothLobbyTextsPoll "[]" "[]" "[]" "[]"] b by blast
  show ?thesis
    using len admit first wait t timed h denied both poll_examples(6) by blast
qed


subsection \<open>The stop routine\<close>

lemma clearTimer_fields [simp]:
  "recorderActive (clearTimer h st) = recorderActive st"
  "inactiveStopThrows (clearTimer h st) = inactiveStopThrows st"
  "trackLive (clearTimer h st) = trackLive st"
  "timeoutId (clearTimer h st) = timeoutId st"
  "inactivityParticipantDetectionTimeout (clearTimer h st) = inactivityParticipantDetectionTimeout st"
  "inactivitySilenceDetectionTimeout (clearTimer h st) = inactivitySilenceDetectionTimeout st"
  "loneTest (clearTimer h st) = loneTest st"
  "isOnValidGoogleMeetPageInterval (clearTimer h st) = isOnValidGoogleMeetPageInterval st"
  "dismissModalsInterval (clearTimer h st) = dismissModalsInterval st"
  "pageSecretId (clearTimer h st) = pageSecretId st"
  by (simp_all add: clearTimer_def split: option.splits)

lemma clearIfSet_fields [simp]:
  "recorderActive (clearIfSet h st) = recorderActive st"
  "inactiveStopThrows (clearIfSet h st) = inactiveStopThrows st"
  "trackLive (clearIfSet h st) = trackLive st"
  "timeoutId (clearIfSet h st) = timeoutId st"
  "inactivityParticipantDetectionTimeout (clearIfSet h st) = inactivityParticipantDetectionTimeout st"
  "inactivitySilenceDetectionTimeout (clearIfSet h st) = inactivitySilenceDetectionTimeout st"
  "loneTest (clearIfSet h st) = loneTest st"
  "isOnValidGoogleMeetPageInterval (clearIfSet h st) = isOnValidGoogleMeetPageInterval st"
  "dismissModalsInterval (clearIfSet h st) = dismissModalsInterval st"
  "pageSecretId (clearIfSet h st) = pageSecretId st"
  by (simp_all add: clearIfSet_def)

lemma clear_effects [simp]:
  "effects (clearTimer h st)
     = effects st @ map ClearTimer (case h of None \<Rightarrow> [] | Some n \<Rightarrow> [n])"
  "effects (clearIfSet h st)
     = effects st @ map ClearTimer (case h of None \<Rightarrow> [] | Some n \<Rightarrow> if n \<noteq> 0 then [n] else [])"
  by (simp_all add: clearTimer_def clearIfSet_def truthy_def split: option.splits)

lemma clear_pending [simp]:
  "pendingTimers (clearTimer h st)
     = pendingTimers st - set (case h of None \<Rightarrow> [] | Some n \<Rightarrow> [n])"
  "pendingTimers (clearIfSet h st)
     = pendingTimers st - set (case h of None \<Rightarrow> [] | Some n \<Rightarrow> if n \<noteq> 0 then [n] else [])"
  by (auto simp: clearTimer_def clearIfSet_def truthy_def split: option.splits)

lemma stop_fields [simp]:
  "inactiveStopThrows (stopTheRecording st) = inactiveStopThrows st"
  "length (trackLive (stopTheRecording st)) = length (trackLive st)"
  "timeoutId (stopTheRecording st) = timeoutId st"
  "inactivityParticipantDetectionTimeout (stopTheRecording st) = inactivityParticipantDetectionTimeout st"
  "inactivitySilenceDetectionTimeout (stopTheRecording st) = inactivitySilenceDetectionTimeout st"
  "loneTest (stopTheRecording st) = loneTest st"
  "isOnValidGoogleMeetPageInterval (stopTheRecording st) = isOnValidGoogleMeetPageInterval st"
  "dismissModalsInterval (stopTheRecording st) = dismissModalsInterval st"
  "pageSecretId (stopTheRecording st) = pageSecretId st"
  by (simp_all add: stopTheRecording_def Let_def stopTracks_def)

lemma stop_derived [simp]:
  "handlesPassed (stopTheRecording st) = handlesPassed st"
  "callEffects (stopTheRecording st) = callEffects st"
  by (simp_all add: handlesPassed_def callEffects_def)

lemma stop_effects:
  "\<not> inactiveStopThrows st \<Longrightarrow> effects (stopTheRecording st) = effects st @ callEffects st"
  by (simp add: stopTheRecording_def Let_def stopTracks_def callEffects_def handlesPassed_def)

lemma stop_pending:
  "\<not> inactiveStopThrows st \<Longrightarrow>
   pendingTimers (stopTheRecording st) = pendingTimers st - set (handlesPassed st)"
  by (auto simp: stopTheRecording_def Let_def stopTracks_def handlesPassed_def)

lemma stop_tracks:
  "\<not> inactiveStopThrows st \<Longrightarrow>
   trackLive (stopTheRecording st) = map (\<lambda>_. False) (trackLive st) \<and>
   \<not> recorderActive (stopTheRecording st)"
  by (simp add: stopTheRecording_def Let_def stopTracks_def)

lemma funpow_stop_fields [simp]:
  "inactiveStopThrows ((stopTheRecording ^^ n) st) = inactiveStopThrows st"
  "callEffects ((stopTheRecording ^^ n) st) = callEffects st"
  "handlesPassed ((stopTheRecording ^^ n) st) = handlesPassed st"
  by (induction n) simp_all

lemma concat_replicate_snoc:
  "concat (replicate n xs) @ xs = concat (replicate (Suc n) xs)"
  by (induction n) simp_all

lemma funpow_stop_effects:
  "\<not> inactiveStopThrows st \<Longrightarrow>
   effects ((stopTheRecording ^^ n) st) = effects st @ concat (replicate n (callEffects st))"
proof (induction n)
  case 0
  then show ?case by simp
next
  case (Suc n)
  have "\<not> inactiveStopThrows ((stopTheRecording ^^ n) st)" using Suc.prems by simp
  from stop_effects [OF this] have
    "effects ((stopTheRecording ^^ Suc n) st)
       = effects ((stopTheRecording ^^ n) st) @ callEffects st" by simp
  also have "\<dots> = effects st @ concat (replicate n (callEffects st)) @ callEffects st"
    using Suc by simp
  also have "concat (replicate n (callEffects st)) @ callEffects st
      = concat (replicate (Suc n) (callEffects st))"
    by (rule concat_replicate_snoc)
  finally show ?case .
qed

lemma count_concat_replicate:
  "count_list (concat (replicate n xs)) x = n * count_list xs x"
  by (induction n) simp_all

lemma count_map_inj:
  "inj f \<Longrightarrow> count_list (map f xs) (f x) = count_list xs x"
  by (induction xs) (auto dest: injD)

lemma count_map_other:
  "(\<And>y. f y \<noteq> z) \<Longrightarrow> count_list (map f xs) z = 0"
  by (induction xs) auto

lemma count_upt: "count_list [0 ..< n] i = (if i < n then 1 else 0)"
  by (induction n) auto

lemma callEffects_counts:
  "count_list (callEffects st) (MeetEnd s) = (if s = pageSecretId st then 1 else 0)"
  "count_list (callEffects st) RecorderStop = 1"
  "count_list (callEffects st) (TrackStop i) = (if i < length (trackLive st) then 1 else 0)"
  "count_list (callEffects st) (ClearTimer h) = count_list (handlesPassed st) h"
proof -
  have inj: "inj TrackStop" "inj ClearTimer" by (simp_all add: inj_def)
  show "count_list (callEffects st) (MeetEnd s) = (if s = pageSecretId st then 1 else 0)"
    by (simp add: callEffects_def count_map_other)
  show "count_list (callEffects st) RecorderStop = 1"
    by (simp add: callEffects_def count_map_other)
  show "count_list (callEffects st) (TrackStop i) = (if i < length (trackLive st) then 1 else 0)"
    by (simp add: callEffects_def count_map_other count_map_inj [OF inj(1)] count_upt)
  show "count_list (callEffects st) (ClearTimer h) = count_list (handlesPassed st) h"
    by (simp add: callEffects_def count_map_other count_map_inj [OF inj(2)])
qed

lemma handlesPassed_members:
  "(timeoutId st = Some h \<longrightarrow> h \<in> set (handlesPassed st)) \<and>
   (h \<noteq> 0 \<and> Some h \<in> {inactivityParticipantDetectionTimeout st,
        inactivitySilenceDetectionTimeout st, loneTest st, isOnValidGoogleMeetPageInterval st,
        dismissModalsInterval st} \<longrightarrow> h \<in> set (handlesPassed st)) \<and>
   (h \<in> set (handlesPassed st) \<longrightarrow>
      timeoutId st = Some h \<or>
      (h \<noteq> 0 \<and> Some h \<in> {inactivityParticipantDetectionTimeout st,
        inactivitySilenceDetectionTimeout st, loneTest st, isOnValidGoogleMeetPageInterval st,
        dismissModalsInterval st}))"
  by (auto simp: handlesPassed_def split: option.splits if_splits)

lemma funpow_stop_outcome:
  "\<not> inactiveStopThrows st \<Longrightarrow>
   trackLive ((stopTheRecording ^^ Suc n) st) = map (\<lambda>_. False) (trackLive st) \<and>
   \<not> recorderActive ((stopTheRecording ^^ Suc n) st) \<and>
   pendingTimers ((stopTheRecording ^^ Suc n) st) = pendingTimers st - set (handlesPassed st)"
proof (induction n)
  case 0
  then show ?case using stop_tracks [of st] stop_pending [of st] by simp
next
  case (Suc n)
  have nt: "\<not> inactiveStopThrows ((stopTheRecording ^^ Suc n) st)" using Suc.prems by simp
  have "(stopTheRecording ^^ Suc (Suc n)) st = stopTheRecording ((stopTheRecording ^^ Suc n) st)"
    by simp
  then show ?case
    using stop_tracks [OF nt] stop_pending [OF nt] Suc
    by (auto simp del: funpow.simps)
qed

lemma funpow_stop_counts:
  assumes "\<not> inactiveStopThrows st"
  shows "count_list (effects ((stopTheRecording ^^ n) st)) (MeetEnd (pageSecretId st))
           = count_list (effects st) (MeetEnd (pageSecretId st)) + n"
    and "i < length (trackLive st) \<Longrightarrow>
         count_list (effects ((stopTheRecording ^^ n) st)) (TrackStop i)
           = count_list (effects st) (TrackStop i) + n"
    and "count_list (effects ((stopTheRecording ^^ n) st)) (ClearTimer h)
           = count_list (effects st) (ClearTimer h) + n * count_list (handlesPassed st) h"
  using funpow_stop_effects [OF assms, of n]
  by (simp_all add: count_concat_replicate callEffects_counts)

lemma stop_RecorderStop:
  "count_list (effects (stopTheRecording st)) RecorderStop = count_list (effects st) RecorderStop + 1"
  by (simp add: stopTheRecording_def Let_def stopTracks_def count_map_other)

lemma funpow_stop_RecorderStop:
  "count_list (effects ((stopTheRecording ^^ n) st)) RecorderStop
     = count_list (effects st) RecorderStop + n"
  by (induction n) (simp_all add: stop_RecorderStop)

text \<open>
  C2, as the claim states it, fails: the routine has no "already stopping" guard. Called
  twice on a recording page it stops each track twice, clears the duration timer and the
  presence timer twice and sends the end signal twice, and the host runs its
  end-of-meeting handler twice.
\<close>

theorem stop_twice_repeats_cleanup:
  "count_list (effects (stopTheRecording (stopTheRecording examplePage))) (MeetEnd ''s3cr3t'') = 2 \<and>
   count_list (effects (stopTheRecording (stopTheRecording examplePage))) (TrackStop 0) = 2 \<and>
   count_list (effects (stopTheRecording (stopTheRecording examplePage))) (TrackStop 1) = 2 \<and>
   count_list (effects (stopTheRecording (stopTheRecording examplePage))) (ClearTimer 7) = 2 \<and>
   count_list (effects (stopTheRecording (stopTheRecording examplePage))) (ClearTimer 9) = 2 \<and>
   effects (stopTheRecording (stopTheRecording examplePage)) \<noteq> effects (stopTheRecording examplePage) \<and>
   hostLog (deliverMeetEnds (effects (stopTheRecording (stopTheRecording examplePage))) exampleHost)
     = [''Attempt to end meeting early...'', ''Attempt to end meeting early...'']"
  by code_simp

text \<open>
  C2, amended. In a browser whose media recorder ignores \<^verbatim>\<open>stop()\<close> when inactive,
  every call of the stop routine runs the whole cleanup again: \<open>n\<close> calls append \<open>n\<close>
  times the same sequence of calls, namely \<^verbatim>\<open>stop()\<close> on the recorder, \<^verbatim>\<open>stop()\<close> on
  each track, \<^verbatim>\<open>clearTimeout\<close> or \<^verbatim>\<open>clearInterval\<close> on the duration timer (when
  defined) and on each of the five other timers whose variable holds a non-zero id, and
  the end signal. So after \<open>n\<close> calls the end signal has been sent \<open>n\<close> more times, each
  track has been stopped \<open>n\<close> more times and each such timer id has been cleared \<open>n\<close>
  more times for each variable that holds it. Only the outcome is the same after one
  call and after several: all tracks are stopped, the recorder is inactive and those
  timers are no longer pending. Where \<^verbatim>\<open>stop()\<close> throws on an inactive recorder, a call
  made in that state ends there.
\<close>

theorem stop_reexecutes_cleanup:
  "(\<not> inactiveStopThrows st \<longrightarrow>
      effects ((stopTheRecording ^^ n) st) = effects st @ concat (replicate n (callEffects st)) \<and>
      count_list (effects ((stopTheRecording ^^ n) st)) (MeetEnd (pageSecretId st))
        = count_list (effects st) (MeetEnd (pageSecretId st)) + n \<and>
      (\<forall>i < length (trackLive st).
         count_list (effects ((stopTheRecording ^^ n) st)) (TrackStop i)
           = count_list (effects st) (TrackStop i) + n) \<and>
      (\<forall>h. count_list (effects ((stopTheRecording ^^ n) st)) (ClearTimer h)
           = count_list (effects st) (ClearTimer h) + n * count_list (handlesPassed st) h) \<and>
      trackLive ((stopTheRecording ^^ Suc n) st) = map (\<lambda>_. False) (trackLive st) \<and>
      \<not> recorderActive ((stopTheRecording ^^ Suc n) st) \<and>
      pendingTimers ((stopTheRecording ^^ Suc n) st) = pendingTimers st - set (handlesPassed st)) \<and>
   callEffects st
     = RecorderStop # map TrackStop [0 ..< length (trackLive st)] @
       map ClearTimer (handlesPassed st) @ [MeetEnd (pageSecretId st)] \<and>
   (\<forall>h. h \<in> set (handlesPassed st) \<longleftrightarrow>
      timeoutId st = Some h \<or>
      (h \<noteq> 0 \<and> Some h \<in> {inactivityParticipantDetectionTimeout st,
        inactivitySilenceDetectionTimeout st, loneTest st, isOnValidGoogleMeetPageInterval st,
        dismissModalsInterval st})) \<and>
   count_list (effects ((stopTheRecording ^^ n) st)) RecorderStop
     = count_list (effects st) RecorderStop + n \<and>
   (inactiveStopThrows st \<and> \<not> recorderActive st \<longrightarrow>
      stopTheRecording st = st\<lparr>effects := effects st @ [RecorderStop]\<rparr>)"
proof -
  have members: "\<forall>h. h \<in> set (handlesPassed st) \<longleftrightarrow>
      timeoutId st = Some h \<or>
      (h \<noteq> 0 \<and> Some h \<in> {inactivityParticipantDetectionTimeout st,
        inactivitySilenceDetectionTimeout st, loneTest st, isOnValidGoogleMeetPageInterval st,
        dismissModalsInterval st})"
    using handlesPassed_members [of st] by blast
  have throws: "inactiveStopThrows st \<and> \<not> recorderActive st \<longrightarrow>
      stopTheRecording st = st\<lparr>effects := effects st @ [RecorderStop]\<rparr>"
    by (simp add: stopTheRecording_def)
  have calls: "callEffects st
     = RecorderStop # map TrackStop [0 ..< length (trackLive st)] @
       map ClearTimer (handlesPassed st) @ [MeetEnd (pageSecretId st)]"
    by (simp add: callEffects_def)
  have repeated: "\<not> inactiveStopThrows st \<longrightarrow>
      effects ((stopTheRecording ^^ n) st) = effects st @ concat (replicate n (callEffects st)) \<and>
      count_list (effects ((stopTheRecording ^^ n) st)) (MeetEnd (pageSecretId st))
        = count_list (effects st) (MeetEnd (pageSecretId st)) + n \<and>
      (\<forall>i < length (trackLive st).
         count_list (effects ((stopTheRecording ^^ n) st)) (TrackStop i)
           = count_list (effects st) (TrackStop i) + n) \<and>
      (\<forall>h. count_list (effects ((stopTheRecording ^^ n) st)) (ClearTimer h)
           = count_list (effects st) (ClearTimer h) + n * count_list (handlesPassed st) h) \<and>
      trackLive ((stopTheRecording ^^ Suc n) st) = map (\<lambda>_. False) (trackLive st) \<and>
      \<not> recorderActive ((stopTheRecording ^^ Suc n) st) \<and>
      pendingTimers ((stopTheRecording ^^ Suc n) st) = pendingTimers st - set (handlesPassed st)"
  proof
    assume nt: "\<not> inactiveStopThrows st"
    have c1: "effects ((stopTheRecording ^^ n) st) = effects st @ concat (replicate n (callEffects st))"
      by (rule funpow_stop_effects [OF nt])
    have c2: "count_list (effects ((stopTheRecording ^^ n) st)) (MeetEnd (pageSecretId st))
        = count_list (effects st) (MeetEnd (pageSecretId st)) + n"
      by (rule funpow_stop_counts(1) [OF nt])
    have c3: "\<forall>i < length (trackLive st).
         count_list (effects ((stopTheRecording ^^ n) st)) (TrackStop i)
           = count_list (effects st) (TrackStop i) + n"
      using funpow_stop_counts(2) [OF nt] by blast
    have c4: "\<forall>h. count_list (effects ((stopTheRecording ^^ n) st)) (ClearTimer h)
           = count_list (effects st) (ClearTimer h) + n * count_list (handlesPassed st) h"
      using funpow_stop_counts(3) [OF nt] by blast
    note c5 = funpow_stop_outcome [OF nt, of n]
    from c1 c2 c3 c4 c5 show "effects ((stopTheRecording ^^ n) st)
        = effects st @ concat (replicate n (callEffects st)) \<and>
      count_list (effects ((stopTheRecording ^^ n) st)) (MeetEnd (pageSecretId st))
        = count_list (effects st) (MeetEnd (pageSecretId st)) + n \<and>
      (\<forall>i < length (trackLive st).
         count_list (effects ((stopTheRecording ^^ n) st)) (TrackStop i)
           = count_list (effects st) (TrackStop i) + n) \<and>
      (\<forall>h. count_list (effects ((stopTheRecording ^^ n) st)) (ClearTimer h)
           = count_list (effects st) (ClearTimer h) + n * count_list (handlesPassed st) h) \<and>
      trackLive ((stopTheRecording ^^ Suc n) st) = map (\<lambda>_. False) (trackLive st) \<and>
      \<not> recorderActive ((stopTheRecording ^^ Suc n) st) \<and>
      pendingTimers ((stopTheRecording ^^ Suc n) st) = pendingTimers st - set (handlesPassed st)"
      by (intro conjI) (rule c1 c2 c3 c4 c5 [THEN conjunct1] c5 [THEN conjunct2, THEN conjunct1]
          c5 [THEN conjunct2, THEN conjunct2])+
  qed
  note rec = funpow_stop_RecorderStop [of n st]
  from repeated calls members rec throws show ?thesis
    by (intro conjI) (rule repeated calls members rec throws)+
qed

theorem stop_reexecutes_cleanup_witness:
  "\<not> inactiveStopThrows examplePage \<and>
   handlesPassed examplePage = [7, 3, 4, 9, 5, 6] \<and>
   count_list (effects ((stopTheRecording ^^ 3) examplePage)) (MeetEnd ''s3cr3t'') = 3 \<and>
   (1::nat) < length (trackLive examplePage) \<and>
   count_list (effects ((stopTheRecording ^^ 3) examplePage)) (TrackStop 1) = 3 \<and>
   count_list (effects ((stopTheRecording ^^ 3) examplePage)) (ClearTimer 7) = 3 \<and>
   count_list (effects ((stopTheRecording ^^ 3) examplePage)) (ClearTimer 9) = 3 \<and>
   count_list (effects ((stopTheRecording ^^ 3) examplePage)) (ClearTimer 5) = 3"
proof -
  have p: "\<not> inactiveStopThrows examplePage" "handlesPassed examplePage = [7, 3, 4, 9, 5, 6]"
      "(1::nat) < length (trackLive examplePage)" "effects examplePage = []"
      "pageSecretId examplePage = ''s3cr3t''"
    by (simp_all add: examplePage_def handlesPassed_def)
  note t = stop_reexecutes_cleanup [of examplePage 3]
  have e: "count_list (effects ((stopTheRecording ^^ 3) examplePage)) (MeetEnd (pageSecretId examplePage))
      = count_list (effects examplePage) (MeetEnd (pageSecretId examplePage)) + 3"
    using t p(1) by blast
  have tr: "count_list (effects ((stopTheRecording ^^ 3) examplePage)) (TrackStop 1)
      = count_list (effects examplePage) (TrackStop 1) + 3"
    using t p(1) p(3) by blast
  have c: "\<forall>h. count_list (effects ((stopTheRecording ^^ 3) examplePage)) (ClearTimer h)
      = count_list (effects examplePage) (ClearTimer h) + 3 * count_list (handlesPassed examplePage) h"
    using t p(1) by blast
  show ?thesis
    using e tr c [rule_format, of 7] c [rule_format, of 9] c [rule_format, of 5] p
    by simp
qed


subsection \<open>The presence monitor\<close>

lemma check_alone:
  "loneTestDetectionActive st \<Longrightarrow> c < 2 \<Longrightarrow>
   check (Count c) st = st\<lparr>readsEvaluated := readsEvaluated st + 1, detectionFailures := 0,
       loneTestDetectionActive := False, checkPending := False,
       stopRequests := stopRequests st + 1\<rparr>"
  by (simp add: check_def Let_def)

lemma check_accompanied:
  "loneTestDetectionActive st \<Longrightarrow> 2 \<le> c \<Longrightarrow>
   check (Count c) st = st\<lparr>readsEvaluated := readsEvaluated st + 1, detectionFailures := 0,
       checkPending := True\<rparr>"
  by (simp add: check_def Let_def)

lemma runPresence_disabled:
  "\<not> loneTestDetectionActive st \<Longrightarrow>
   \<not> loneTestDetectionActive (runPresence reads st) \<and>
   stopRequests (runPresence reads st) = stopRequests st \<and>
   readsEvaluated (runPresence reads st) = readsEvaluated st \<and>
   detectionFailures (runPresence reads st) = detectionFailures st"
proof (induction reads arbitrary: st)
  case Nil
  then show ?case by simp
next
  case (Cons r rs)
  have c: "check r st = st\<lparr>checkPending := False\<rparr>" using Cons.prems by (simp add: check_def)
  show ?case
  proof (cases "checkPending st")
    case True
    have "\<not> loneTestDetectionActive (check r st)" using c Cons.prems by simp
    from Cons.IH [OF this] show ?thesis using True c by simp
  next
    case False
    then show ?thesis using Cons.prems by simp
  qed
qed

lemma runPresence_unknowns:
  "loneTestDetectionActive st \<Longrightarrow> checkPending st \<Longrightarrow> detectionFailures st + k < 10 \<Longrightarrow>
   loneTestDetectionActive (runPresence (replicate k Unknown) st) \<and>
   checkPending (runPresence (replicate k Unknown) st) \<and>
   detectionFailures (runPresence (replicate k Unknown) st) = detectionFailures st + k \<and>
   readsEvaluated (runPresence (replicate k Unknown) st) = readsEvaluated st + k \<and>
   stopRequests (runPresence (replicate k Unknown) st) = stopRequests st"
proof (induction k arbitrary: st)
  case 0
  then show ?case by simp
next
  case (Suc k)
  let ?st' = "check Unknown st"
  have f: "loneTestDetectionActive ?st'" "checkPending ?st'"
      "detectionFailures ?st' = detectionFailures st + 1"
      "readsEvaluated ?st' = readsEvaluated st + 1" "stopRequests ?st' = stopRequests st"
    using Suc.prems by (simp_all add: check_def Let_def maxDetectionFailures_def)
  have "detectionFailures ?st' + k < 10" using f(3) Suc.prems(3) by simp
  from Suc.IH [OF f(1) f(2) this] show ?case using Suc.prems(2) f by simp
qed

lemma runPresence_append:
  "runPresence (xs @ ys) st =
     (if checkPending (runPresence xs st) then runPresence ys (runPresence xs st)
      else runPresence xs st)"
proof (induction xs arbitrary: st)
  case Nil
  then show ?case by (cases ys) auto
next
  case (Cons x xs)
  then show ?case by simp
qed

lemma tenth_unknown:
  assumes "loneTestDetectionActive st" "checkPending st" "detectionFailures st = 0"
  shows "\<not> loneTestDetectionActive (runPresence (replicate 10 Unknown) st) \<and>
         stopRequests (runPresence (replicate 10 Unknown) st) = stopRequests st \<and>
         readsEvaluated (runPresence (replicate 10 Unknown) st) = readsEvaluated st + 10"
proof -
  let ?s9 = "runPresence (replicate 9 Unknown) st"
  have nine: "loneTestDetectionActive ?s9" "checkPending ?s9" "detectionFailures ?s9 = 9"
      "readsEvaluated ?s9 = readsEvaluated st + 9" "stopRequests ?s9 = stopRequests st"
    using runPresence_unknowns [of st 9] assms by simp_all
  have "replicate 10 Unknown = replicate 9 Unknown @ [Unknown]"
    using replicate_add [of 9 1 Unknown] by simp
  then have "runPresence (replicate 10 Unknown) st = check Unknown ?s9"
    using nine(2) by (simp add: runPresence_append del: replicate_Suc replicate.simps)
  then show ?thesis using nine by (simp add: check_def Let_def maxDetectionFailures_def)
qed


lemma after_tenth_unknown:
  assumes "loneTestDetectionActive st" "checkPending st" "detectionFailures st = 0"
  shows "\<not> loneTestDetectionActive (runPresence (replicate 10 Unknown @ reads) st) \<and>
         stopRequests (runPresence (replicate 10 Unknown @ reads) st) = stopRequests st \<and>
         readsEvaluated (runPresence (replicate 10 Unknown @ reads) st) = readsEvaluated st + 10"
proof -
  let ?s10 = "runPresence (replicate 10 Unknown) st"
  have ten: "\<not> loneTestDetectionActive ?s10" "stopRequests ?s10 = stopRequests st"
      "readsEvaluated ?s10 = readsEvaluated st + 10"
    using tenth_unknown [OF assms] by simp_all
  have "runPresence (replicate 10 Unknown @ reads) st = ?s10 \<or>
        runPresence (replicate 10 Unknown @ reads) st = runPresence reads ?s10"
    by (simp only: runPresence_append split: if_split) blast
  then show ?thesis using ten runPresence_disabled [OF ten(1), of reads] by auto
qed

lemma alone_read_stops:
  assumes "loneTestDetectionActive st" "checkPending st" "c < 2"
  shows "stopRequests (runPresence (Count c # rest) st) = stopRequests st + 1 \<and>
         readsEvaluated (runPresence (Count c # rest) st) = readsEvaluated st + 1 \<and>
         \<not> loneTestDetectionActive (runPresence (Count c # rest) st)"
proof -
  let ?s = "check (Count c) st"
  have s: "\<not> loneTestDetectionActive ?s" "stopRequests ?s = stopRequests st + 1"
      "readsEvaluated ?s = readsEvaluated st + 1"
    using assms by (simp_all add: check_alone)
  show ?thesis using assms(2) s runPresence_disabled [OF s(1), of rest] by simp
qed

text \<open>
  C5. While the monitor is active, a read below 2 requests termination (one call of the
  stop routine, after which no read is evaluated), and a read of 2 or more sets the
  failure counter to 0 and leaves the next check pending. From a counter of 0, fewer
  than ten consecutive unknown reads leave the monitor active; the tenth disables it
  without a stop request, and whatever reads follow, none is evaluated and no stop is
  requested. A disabled monitor stays disabled.
\<close>

theorem presence_monitor:
  "(loneTestDetectionActive st \<and> c < 2 \<longrightarrow>
      check (Count c) st = st\<lparr>readsEvaluated := readsEvaluated st + 1, detectionFailures := 0,
          loneTestDetectionActive := False, checkPending := False,
          stopRequests := stopRequests st + 1\<rparr>) \<and>
   (loneTestDetectionActive st \<and> checkPending st \<and> c < 2 \<longrightarrow>
      stopRequests (runPresence (Count c # rest) st) = stopRequests st + 1 \<and>
      readsEvaluated (runPresence (Count c # rest) st) = readsEvaluated st + 1) \<and>
   (loneTestDetectionActive st \<and> 2 \<le> c \<longrightarrow>
      check (Count c) st = st\<lparr>readsEvaluated := readsEvaluated st + 1, detectionFailures := 0,
          checkPending := True\<rparr>) \<and>
   (loneTestDetectionActive st \<and> checkPending st \<and> detectionFailures st = 0 \<longrightarrow>
      (\<forall>k < 10. loneTestDetectionActive (runPresence (replicate k Unknown) st) \<and>
                 checkPending (runPresence (replicate k Unknown) st) \<and>
                 detectionFailures (runPresence (replicate k Unknown) st) = k) \<and>
      \<not> loneTestDetectionActive (runPresence (replicate 10 Unknown) st) \<and>
      stopRequests (runPresence (replicate 10 Unknown) st) = stopRequests st \<and>
      (\<forall>reads.
         \<not> loneTestDetectionActive (runPresence (replicate 10 Unknown @ reads) st) \<and>
         stopRequests (runPresence (replicate 10 Unknown @ reads) st) = stopRequests st \<and>
         readsEvaluated (runPresence (replicate 10 Unknown @ reads) st) = readsEvaluated st + 10)) \<and>
   (\<not> loneTestDetectionActive st \<longrightarrow>
      (\<forall>reads.
         \<not> loneTestDetectionActive (runPresence reads st) \<and>
         stopRequests (runPresence reads st) = stopRequests st \<and>
         readsEvaluated (runPresence reads st) = readsEvaluated st))"
proof -
  have below: "loneTestDetectionActive st \<and> checkPending st \<and> detectionFailures st = 0 \<longrightarrow>
      (\<forall>k < 10. loneTestDetectionActive (runPresence (replicate k Unknown) st) \<and>
                 checkPending (runPresence (replicate k Unknown) st) \<and>
                 detectionFailures (runPresence (replicate k Unknown) st) = k)"
    using runPresence_unknowns [of st] by simp
  have tenth: "loneTestDetectionActive st \<and> checkPending st \<and> detectionFailures st = 0 \<longrightarrow>
      \<not> loneTestDetectionActive (runPresence (replicate 10 Unknown) st) \<and>
      stopRequests (runPresence (replicate 10 Unknown) st) = stopRequests st"
    using tenth_unknown [of st] by blast
  have after: "loneTestDetectionActive st \<and> checkPending st \<and> detectionFailures st = 0 \<longrightarrow>
      (\<forall>reads.
         \<not> loneTestDetectionActive (runPresence (replicate 10 Unknown @ reads) st) \<and>
         stopRequests (runPresence (replicate 10 Unknown @ reads) st) = stopRequests st \<and>
         readsEvaluated (runPresence (replicate 10 Unknown @ reads) st) = readsEvaluated st + 10)"
    using after_tenth_unknown [of st] by blast
  have disabled: "\<not> loneTestDetectionActive st \<longrightarrow>
      (\<forall>reads.
         \<not> loneTestDetectionActive (runPresence reads st) \<and>
         stopRequests (runPresence reads st) = stopRequests st \<and>
         readsEvaluated (runPresence reads st) = readsEvaluated st)"
    using runPresence_disabled [of st] by blast
  have alone: "loneTestDetectionActive st \<and> checkPending st \<and> c < 2 \<longrightarrow>
      stopRequests (runPresence (Count c # rest) st) = stopRequests st + 1 \<and>
      readsEvaluated (runPresence (Count c # rest) st) = readsEvaluated st + 1"
    using alone_read_stops [of st c rest] by blast
  show ?thesis
    using check_alone [of st c] check_accompanied [of st c] below tenth after disabled alone
    by blast
qed

theorem presence_monitor_witness:
  "loneTestDetectionActive presenceStart \<and> checkPending presenceStart \<and>
   detectionFailures presenceStart = 0 \<and> (1::nat) < 2 \<and>
   stopRequests (runPresence [Count 1, Count 5] presenceStart) = 1 \<and>
   readsEvaluated (runPresence [Count 1, Count 5] presenceStart) = 1 \<and>
   \<not> loneTestDetectionActive (runPresence (replicate 10 Unknown @ [Count 1]) presenceStart) \<and>
   stopRequests (runPresence (replicate 10 Unknown @ [Count 1]) presenceStart) = 0 \<and>
   readsEvaluated (runPresence (replicate 10 Unknown @ [Count 1]) presenceStart) = 10"
  using presence_monitor [of presenceStart 1 "[Count 5]"]
  by (simp add: presenceStart_def)


subsection \<open>The silence monitor\<close>

lemma runSilence_idle: "\<not> nextCheckPending st \<Longrightarrow> runSilence L xs st = st"
  by (cases xs) simp_all

lemma runSilence_append:
  "runSilence L (xs @ ys) st = runSilence L ys (runSilence L xs st)"
  by (induction xs arbitrary: st) (simp_all add: runSilence_idle)

lemma accumulatedSilence_snoc:
  "accumulatedSilence (xs @ [x]) = (if quiet x then accumulatedSilence xs + 100 else 0)"
  by (simp add: accumulatedSilence_def)

lemma monitorSilence_quiet:
  assumes "quiet a"
  shows "silenceDuration (monitorSilence L a st) = silenceDuration st + 100"
    and "totalChecks (monitorSilence L a st) = totalChecks st + 1"
    and "L \<le> real_of_int (silenceDuration st + 100) \<Longrightarrow>
           \<not> monitor (monitorSilence L a st) \<and> \<not> nextCheckPending (monitorSilence L a st) \<and>
           silenceStopRequests (monitorSilence L a st) = silenceStopRequests st + 1"
    and "\<not> L \<le> real_of_int (silenceDuration st + 100) \<Longrightarrow>
           monitor (monitorSilence L a st) = monitor st \<and>
           nextCheckPending (monitorSilence L a st) = monitor st \<and>
           silenceStopRequests (monitorSilence L a st) = silenceStopRequests st"
  using assms by (auto simp: monitorSilence_def quiet_def Let_def split: analysis.splits)

lemma monitorSilence_loud:
  assumes "readable a" "\<not> quiet a"
  shows "silenceDuration (monitorSilence L a st) = 0"
    and "totalChecks (monitorSilence L a st) = totalChecks st + 1"
    and "monitor (monitorSilence L a st) = monitor st"
    and "nextCheckPending (monitorSilence L a st) = monitor st"
    and "silenceStopRequests (monitorSilence L a st) = silenceStopRequests st"
  using assms by (auto simp: monitorSilence_def quiet_def readable_def Let_def split: analysis.splits)

lemma monitorSilence_error:
  assumes "\<not> readable a"
  shows "monitorSilence L a st = st\<lparr>monitor := False, nextCheckPending := False\<rparr>"
  using assms by (auto simp: monitorSilence_def readable_def split: analysis.splits)

lemma quiet_readable: "quiet a \<Longrightarrow> readable a"
  by (auto simp: quiet_def readable_def split: analysis.splits)

lemma limitReachedAt_prefix:
  "i < length xs \<Longrightarrow> limitReachedAt L (xs @ ys) i = limitReachedAt L xs i"
  by (simp add: limitReachedAt_def nth_append)

lemma limitReachedAt_last:
  "limitReachedAt L (xs @ [x]) (length xs) \<longleftrightarrow>
     quiet x \<and> L \<le> real_of_int (accumulatedSilence xs + 100)"
  by (auto simp: limitReachedAt_def accumulatedSilence_snoc)

lemma silence_running:
  assumes "\<forall>a \<in> set xs. readable a" and "\<forall>i < length xs. \<not> limitReachedAt L xs i"
  shows "monitor (runSilence L xs silenceStart) \<and>
         nextCheckPending (runSilence L xs silenceStart) \<and>
         silenceStopRequests (runSilence L xs silenceStart) = 0 \<and>
         silenceDuration (runSilence L xs silenceStart) = accumulatedSilence xs \<and>
         totalChecks (runSilence L xs silenceStart) = length xs"
  using assms
proof (induction xs rule: rev_induct)
  case Nil
  then show ?case by (simp add: silenceStart_def accumulatedSilence_def)
next
  case (snoc x xs)
  let ?s = "runSilence L xs silenceStart"
  have r: "\<forall>a \<in> set xs. readable a" and rx: "readable x" using snoc.prems(1) by simp_all
  have "\<forall>i < length xs. \<not> limitReachedAt L xs i"
  proof (intro allI impI)
    fix i assume i: "i < length xs"
    then have "\<not> limitReachedAt L (xs @ [x]) i" using snoc.prems(2) by simp
    then show "\<not> limitReachedAt L xs i" using limitReachedAt_prefix [OF i] by simp
  qed
  from snoc.IH [OF r this]
  have ih: "monitor ?s" "nextCheckPending ?s" "silenceStopRequests ?s = 0"
      "silenceDuration ?s = accumulatedSilence xs" "totalChecks ?s = length xs" by simp_all
  have step: "runSilence L (xs @ [x]) silenceStart = monitorSilence L x ?s"
    using ih(2) by (simp add: runSilence_append)
  have nl: "\<not> limitReachedAt L (xs @ [x]) (length xs)" using snoc.prems(2) by simp
  show ?case
  proof (cases "quiet x")
    case True
    then have "\<not> L \<le> real_of_int (silenceDuration ?s + 100)"
      using nl ih(4) by (simp add: limitReachedAt_last)
    then show ?thesis
      using monitorSilence_quiet [OF True, of L ?s] ih True step
      by (simp add: accumulatedSilence_snoc)
  next
    case False
    then show ?thesis
      using monitorSilence_loud [OF rx False, of L ?s] ih step
      by (simp add: accumulatedSilence_snoc)
  qed
qed

lemma silence_stops:
  assumes "\<forall>a \<in> set xs. readable a" and "i < length xs" and "limitReachedAt L xs i"
      and "\<forall>j < i. \<not> limitReachedAt L xs j"
  shows "silenceStopRequests (runSilence L xs silenceStart) = 1 \<and>
         totalChecks (runSilence L xs silenceStart) = Suc i \<and>
         \<not> monitor (runSilence L xs silenceStart) \<and>
         \<not> nextCheckPending (runSilence L xs silenceStart) \<and>
         real_of_int (silenceDuration (runSilence L xs silenceStart)) \<ge> L"
proof -
  let ?pre = "take i xs"
  let ?s = "runSilence L ?pre silenceStart"
  have xs: "xs = ?pre @ [xs ! i] @ drop (Suc i) xs"
    using assms(2) by (simp add: Cons_nth_drop_Suc)
  have len: "length ?pre = i" using assms(2) by simp
  have r: "\<forall>a \<in> set ?pre. readable a" using assms(1) by (meson in_set_takeD)
  have "\<forall>j < length ?pre. \<not> limitReachedAt L ?pre j"
  proof (intro allI impI)
    fix j assume j: "j < length ?pre"
    then have "j < i" using len by simp
    then have "\<not> limitReachedAt L xs j" using assms(4) by blast
    moreover have "limitReachedAt L xs j = limitReachedAt L ?pre j"
      using limitReachedAt_prefix [OF j, of L "drop i xs"] by simp
    ultimately show "\<not> limitReachedAt L ?pre j" by simp
  qed
  from silence_running [OF r this]
  have pre: "monitor ?s" "nextCheckPending ?s" "silenceStopRequests ?s = 0"
      "silenceDuration ?s = accumulatedSilence ?pre" "totalChecks ?s = i"
    using len by simp_all
  have "take (Suc i) xs = ?pre @ [xs ! i]" using assms(2) by (simp add: take_Suc_conv_app_nth)
  then have q: "quiet (xs ! i)"
      and lim: "L \<le> real_of_int (accumulatedSilence ?pre + 100)"
    using assms(3) by (auto simp: limitReachedAt_def accumulatedSilence_snoc split: if_splits)
  let ?t = "monitorSilence L (xs ! i) ?s"
  have t: "\<not> monitor ?t" "\<not> nextCheckPending ?t" "silenceStopRequests ?t = 1"
      "totalChecks ?t = Suc i" "silenceDuration ?t = accumulatedSilence ?pre + 100"
    using monitorSilence_quiet [OF q, of L ?s] lim pre by simp_all
  have "runSilence L xs silenceStart = runSilence L ([xs ! i] @ drop (Suc i) xs) ?s"
    using xs runSilence_append [of L ?pre "[xs ! i] @ drop (Suc i) xs" silenceStart] by simp
  also have "\<dots> = runSilence L (drop (Suc i) xs) ?t"
    using pre(2) by simp
  also have "\<dots> = ?t" using t(2) by (rule runSilence_idle)
  finally show ?thesis using t lim by simp
qed


lemma limitReachedAt_positive:
  assumes "0 < L" and "i < length xs"
  shows "limitReachedAt L xs i \<longleftrightarrow> L \<le> real_of_int (accumulatedSilence (take (Suc i) xs))"
proof -
  have "take (Suc i) xs = take i xs @ [xs ! i]" using assms(2) by (simp add: take_Suc_conv_app_nth)
  then show ?thesis using assms(1)
    by (auto simp: limitReachedAt_def accumulatedSilence_snoc)
qed

lemma silence_error_run:
  assumes "\<not> readable a"
  shows "silenceStopRequests (runSilence L (a # rest) st) = silenceStopRequests st \<and>
         totalChecks (runSilence L (a # rest) st) = totalChecks st \<and>
         (nextCheckPending st \<longrightarrow> \<not> monitor (runSilence L (a # rest) st))"
  using assms by (simp add: monitorSilence_error runSilence_idle)

lemma frame_examples:
  "quiet quietFrame" "readable quietFrame" "\<not> quiet loudFrame" "readable loudFrame"
  by (simp_all add: quietFrame_def loudFrame_def quiet_def readable_def audioActivity_def
      silenceThreshold_def)

text \<open>
  C6. A sample below the threshold adds 100 to \<^verbatim>\<open>silenceDuration\<close>, a readable sample at
  or above it sets \<^verbatim>\<open>silenceDuration\<close> to 0 and requests nothing. Over any sequence of
  readable samples, as long as the limit has been reached at no sample the monitor keeps
  running with \<^verbatim>\<open>silenceDuration\<close> equal to the accumulated silence and no stop request;
  at the first sample where the limit is reached it requests termination once, having
  evaluated exactly the samples up to that one, and stops. For a positive limit the limit
  is reached at a sample exactly when the silence accumulated up to it is at least the
  limit. Without an audio track, or when setting up the analyser fails, no monitor is
  started. A sample that cannot be analysed stops the monitor without a stop request.
\<close>

theorem silence_monitor:
  "(quiet a \<longrightarrow> silenceDuration (monitorSilence L a st) = silenceDuration st + 100) \<and>
   (readable a \<and> \<not> quiet a \<longrightarrow>
      silenceDuration (monitorSilence L a st) = 0 \<and>
      silenceStopRequests (monitorSilence L a st) = silenceStopRequests st) \<and>
   ((\<forall>a \<in> set xs. readable a) \<and> (\<forall>i < length xs. \<not> limitReachedAt L xs i) \<longrightarrow>
      silenceStopRequests (runSilence L xs silenceStart) = 0 \<and>
      monitor (runSilence L xs silenceStart) \<and>
      nextCheckPending (runSilence L xs silenceStart) \<and>
      silenceDuration (runSilence L xs silenceStart) = accumulatedSilence xs \<and>
      totalChecks (runSilence L xs silenceStart) = length xs) \<and>
   ((\<forall>a \<in> set xs. readable a) \<and> i < length xs \<and> limitReachedAt L xs i \<and>
    (\<forall>j < i. \<not> limitReachedAt L xs j) \<longrightarrow>
      silenceStopRequests (runSilence L xs silenceStart) = 1 \<and>
      totalChecks (runSilence L xs silenceStart) = Suc i \<and>
      \<not> monitor (runSilence L xs silenceStart) \<and>
      \<not> nextCheckPending (runSilence L xs silenceStart)) \<and>
   (0 < L \<and> i < length xs \<longrightarrow>
      limitReachedAt L xs i = (L \<le> real_of_int (accumulatedSilence (take (Suc i) xs)))) \<and>
   detectIncrediblySilentMeeting L False setup xs = None \<and>
   detectIncrediblySilentMeeting L True Throws xs = None \<and>
   detectIncrediblySilentMeeting L True (Returns ()) xs = Some (runSilence L xs silenceStart) \<and>
   (\<not> readable a \<longrightarrow>
      monitorSilence L a st = st\<lparr>monitor := False, nextCheckPending := False\<rparr> \<and>
      silenceStopRequests (runSilence L (a # rest) st) = silenceStopRequests st \<and>
      totalChecks (runSilence L (a # rest) st) = totalChecks st)"
proof -
  have running: "(\<forall>a \<in> set xs. readable a) \<and> (\<forall>i < length xs. \<not> limitReachedAt L xs i) \<longrightarrow>
      silenceStopRequests (runSilence L xs silenceStart) = 0 \<and>
      monitor (runSilence L xs silenceStart) \<and>
      nextCheckPending (runSilence L xs silenceStart) \<and>
      silenceDuration (runSilence L xs silenceStart) = accumulatedSilence xs \<and>
      totalChecks (runSilence L xs silenceStart) = length xs"
    using silence_running [of xs L] by blast
  have stops: "(\<forall>a \<in> set xs. readable a) \<and> i < length xs \<and> limitReachedAt L xs i \<and>
    (\<forall>j < i. \<not> limitReachedAt L xs j) \<longrightarrow>
      silenceStopRequests (runSilence L xs silenceStart) = 1 \<and>
      totalChecks (runSilence L xs silenceStart) = Suc i \<and>
      \<not> monitor (runSilence L xs silenceStart) \<and>
      \<not> nextCheckPending (runSilence L xs silenceStart)"
    using silence_stops [of xs i L] by blast
  have started: "detectIncrediblySilentMeeting L False setup xs = None \<and>
      detectIncrediblySilentMeeting L True Throws xs = None \<and>
      detectIncrediblySilentMeeting L True (Returns ()) xs = Some (runSilence L xs silenceStart)"
    by (simp add: detectIncrediblySilentMeeting_def)
  show ?thesis
    using monitorSilence_quiet(1) [of a L st] monitorSilence_loud(1,5) [of a L st]
      running stops limitReachedAt_positive [of L i xs] started
      monitorSilence_error [of a L st] silence_error_run [of a L rest st]
    by blast
qed

theorem silence_monitor_witness:
  "readable loudFrame \<and> readable quietFrame \<and>
   (2::nat) < length [loudFrame, quietFrame, quietFrame, loudFrame] \<and>
   limitReachedAt 200 [loudFrame, quietFrame, quietFrame, loudFrame] 2 \<and>
   \<not> limitReachedAt 200 [loudFrame, quietFrame, quietFrame, loudFrame] 0 \<and>
   \<not> limitReachedAt 200 [loudFrame, quietFrame, quietFrame, loudFrame] 1 \<and>
   silenceStopRequests (runSilence 200 [loudFrame, quietFrame, quietFrame, loudFrame] silenceStart) = 1 \<and>
   totalChecks (runSilence 200 [loudFrame, quietFrame, quietFrame, loudFrame] silenceStart) = 3 \<and>
   quiet quietFrame \<and>
   silenceDuration (monitorSilence 200 quietFrame silenceStart) = 100 \<and>
   \<not> readable AnalysisError \<and>
   silenceStopRequests (runSilence 200 [AnalysisError, quietFrame, quietFrame] silenceStart) = 0"
proof -
  have r: "\<forall>a \<in> set [loudFrame, quietFrame, quietFrame, loudFrame]. readable a"
    by (simp add: frame_examples)
  have len: "(2::nat) < length [loudFrame, quietFrame, quietFrame, loudFrame]" by simp
  have at2: "limitReachedAt 200 [loudFrame, quietFrame, quietFrame, loudFrame] 2"
    by (simp add: limitReachedAt_def accumulatedSilence_def frame_examples)
  have before: "\<forall>j < 2. \<not> limitReachedAt 200 [loudFrame, quietFrame, quietFrame, loudFrame] j"
  proof (intro allI impI)
    fix j :: nat assume "j < 2"
    then have "j = 0 \<or> j = 1" by auto
    then show "\<not> limitReachedAt 200 [loudFrame, quietFrame, quietFrame, loudFrame] j"
      by (auto simp: limitReachedAt_def accumulatedSilence_def frame_examples)
  qed
  have e: "\<not> readable AnalysisError" by (simp add: readable_def)
  have start: "silenceDuration silenceStart = 0" "silenceStopRequests silenceStart = 0"
    by (simp_all add: silenceStart_def)
  show ?thesis
    using silence_monitor [of quietFrame 200 silenceStart
        "[loudFrame, quietFrame, quietFrame, loudFrame]" 2 "Returns ()" "[]"]
      silence_monitor [of AnalysisError 200 silenceStart
        "[loudFrame, quietFrame, quietFrame, loudFrame]" 2 "Returns ()" "[quietFrame, quietFrame]"]
      r len at2 before e start frame_examples
    by simp
qed


subsection \<open>The submission check of the capture path\<close>

lemma frame_lengths [simp]: "length speechFrame = 4096" "length silentFrame = 4096"
  by (simp_all add: speechFrame_def silentFrame_def)





















subsection \<open>Transcripts and the responding flag\<close>

lemma trim_examples:
  "trim ''thank you'' = ''thank you''" "trim '' hi '' = ''hi''"
  by code_simp+

lemma stream_gate:
  "(triggered (onTranscript t isFinal st) \<noteq> triggered st \<longleftrightarrow> isFinal \<and> 2 < length (trim t)) \<and>
   triggered (onTranscript t isFinal st)
     = (if isFinal \<and> 2 < length (trim t) then triggered st @ [trim t] else triggered st) \<and>
   isSpeaking (onTranscript t isFinal st) = isSpeaking st \<and>
   readyTimers (onTranscript t isFinal st) = readyTimers st"
  by (simp add: onTranscript_def)

lemma batch_gate:
  "(triggered (onTranscription r st) \<noteq> triggered st \<longleftrightarrow>
      (\<exists>t. r = Transcribed True t \<and> 2 < length (trim t))) \<and>
   (triggered (onTranscription r st) \<noteq> triggered st \<longrightarrow> isSpeaking (onTranscription r st)) \<and>
   (\<forall>t. r = Transcribed True t \<and> 2 < length (trim t) \<longrightarrow>
      triggered (onTranscription r st) = triggered st @ [trim t])"
  by (cases r) (auto simp: onTranscription_def trim_def)

lemma mic_gate:
  "(triggered (onresult t st) \<noteq> triggered st \<longleftrightarrow> \<not> isSpeaking st \<and> 2 \<le> length (trim t)) \<and>
   (triggered (onresult t st) \<noteq> triggered st \<longrightarrow>
      isSpeaking (onresult t st) \<and> triggered (onresult t st) = triggered st @ [trim t]) \<and>
   (isSpeaking st \<longrightarrow> onresult t st = st)"
  by (auto simp: onresult_def Let_def)

lemma flag_window:
  "isSpeaking (afterTrigger now (Returns ()) st) = isSpeaking st \<and>
   readyTimers (afterTrigger now (Returns ()) st) = readyTimers st @ [now + 10000] \<and>
   \<not> isSpeaking (afterTrigger now Throws st) \<and>
   readyTimers (afterTrigger now Throws st) = readyTimers st \<and>
   isSpeaking (advanceTo t st) = (isSpeaking st \<and> (\<forall>due \<in> set (readyTimers st). t < due)) \<and>
   readyTimers (advanceTo t st) = filter (\<lambda>due. t < due) (readyTimers st) \<and>
   ((\<forall>due \<in> set (readyTimers st). t < due) \<longrightarrow> advanceTo t st = st) \<and>
   (isSpeaking st \<and> (\<forall>due \<in> set (readyTimers st). t < due) \<and> t < now + 10000 \<longrightarrow>
      isSpeaking (advanceTo t (afterTrigger now (Returns ()) st)) \<and>
      onresult u (advanceTo t (afterTrigger now (Returns ()) st))
        = advanceTo t (afterTrigger now (Returns ()) st) \<and>
      fst (transcriptionCheck t (advanceTo t (afterBatchTrigger now (Returns ()) st))) = Speaking) \<and>
   \<not> isSpeaking (advanceTo (now + 10000) (afterTrigger now (Returns ()) st))"
proof -
  have keep: "filter (\<lambda>due. t < due) (readyTimers st) = readyTimers st"
    if "\<forall>due \<in> set (readyTimers st). t < due"
    using that by (induction "readyTimers st") auto
  have none: "(\<forall>due \<in> set (readyTimers st). t < due) \<longleftrightarrow> \<not> list_ex (\<lambda>due. due \<le> t) (readyTimers st)"
    by (auto simp: list_ex_iff)
  have a: "isSpeaking (advanceTo t st) = (isSpeaking st \<and> (\<forall>due \<in> set (readyTimers st). t < due))"
    by (simp add: advanceTo_def none)
  have b: "readyTimers (advanceTo t st) = filter (\<lambda>due. t < due) (readyTimers st)"
    using keep by (simp add: advanceTo_def none)
  have c: "(\<forall>due \<in> set (readyTimers st). t < due) \<longrightarrow> advanceTo t st = st"
    by (simp add: advanceTo_def none)
  have d: "isSpeaking st \<and> (\<forall>due \<in> set (readyTimers st). t < due) \<and> t < now + 10000 \<longrightarrow>
      isSpeaking (advanceTo t (afterTrigger now (Returns ()) st)) \<and>
      onresult u (advanceTo t (afterTrigger now (Returns ()) st))
        = advanceTo t (afterTrigger now (Returns ()) st) \<and>
      fst (transcriptionCheck t (advanceTo t (afterBatchTrigger now (Returns ()) st))) = Speaking"
    by (fastforce simp: afterTrigger_def afterBatchTrigger_def advanceTo_def list_ex_iff
        onresult_def transcriptionCheck_def)
  have e: "\<not> isSpeaking (advanceTo (now + 10000) (afterTrigger now (Returns ()) st))"
    by (simp add: afterTrigger_def advanceTo_def)
  have f: "isSpeaking (afterTrigger now (Returns ()) st) = isSpeaking st"
    "readyTimers (afterTrigger now (Returns ()) st) = readyTimers st @ [now + 10000]"
    "\<not> isSpeaking (afterTrigger now Throws st)"
    "readyTimers (afterTrigger now Throws st) = readyTimers st"
    by (simp_all add: afterTrigger_def)
  show ?thesis
    by (intro conjI) (rule a b c d e f)+
qed

lemma twoInFlight_fields:
  "isSpeaking twoInFlight"
  "readyTimers twoInFlight = [1700000010000, 1700000015000]"
  "triggered twoInFlight = [''hello there'', ''thank you'']"
  by (simp_all add: twoInFlight_def afterBatchTrigger_def afterTrigger_def onTranscription_def
      respondingState_def trim_examples)

text \<open>
  C8, as the claim states it, fails. The streaming callback calls the response pipeline
  while the flag is set; so does the batch path when a transcription arrives while the
  flag is set. The microphone fallback accepts the trimmed text "hi", of length 2. When
  the response call throws, the flag is cleared at once. With two responses in flight the
  timer of the first clears the flag 5 s after the second response call returned, and the
  microphone fallback then triggers a third response within the 10 s of the second.
\<close>

theorem transcript_paths_differ:
  "isSpeaking respondingState \<and>
   triggered (onTranscript ''thank you'' True respondingState) = [''hello there'', ''thank you''] \<and>
   triggered (onTranscription (Transcribed True ''thank you'') respondingState)
     = [''hello there'', ''thank you''] \<and>
   length (trim '' hi '') = 2 \<and>
   triggered (onresult '' hi '' (captureStart 1700000000000)) = [''hi''] \<and>
   \<not> isSpeaking (afterTrigger 1700000000000 Throws respondingState) \<and>
   isSpeaking twoInFlight \<and>
   readyTimers twoInFlight = [1700000010000, 1700000015000] \<and>
   \<not> isSpeaking (advanceTo 1700000010000 twoInFlight) \<and>
   triggered (onresult '' hi '' (advanceTo 1700000010000 twoInFlight))
     = [''hello there'', ''thank you'', ''hi'']"
proof -
  have first: "isSpeaking respondingState \<and>
      triggered (onTranscript ''thank you'' True respondingState) = [''hello there'', ''thank you''] \<and>
      triggered (onTranscription (Transcribed True ''thank you'') respondingState)
        = [''hello there'', ''thank you''] \<and>
      length (trim '' hi '') = 2 \<and>
      triggered (onresult '' hi '' (captureStart 1700000000000)) = [''hi''] \<and>
      \<not> isSpeaking (afterTrigger 1700000000000 Throws respondingState)"
    by (simp add: onTranscript_def onTranscription_def onresult_def trim_examples afterTrigger_def
        respondingState_def captureStart_def)
  have second: "\<not> isSpeaking (advanceTo 1700000010000 twoInFlight)"
    "triggered (onresult '' hi '' (advanceTo 1700000010000 twoInFlight))
       = [''hello there'', ''thank you'', ''hi'']"
    by (simp_all add: advanceTo_def onresult_def twoInFlight_fields trim_examples)
  from first second twoInFlight_fields(1,2) show ?thesis
    by (intro conjI) simp_all
qed

text \<open>
  C8, amended. The streaming callback calls the response pipeline exactly for a final
  transcript of trimmed length above 2, and neither reads nor changes the flag. The
  batch path submits nothing at a tick where the flag is set; when a transcription
  arrives it calls the pipeline exactly for a successful result of trimmed length above
  2, setting the flag first, without reading the flag again. The microphone fallback
  calls the pipeline exactly when the flag is clear and the trimmed length is at least 2,
  setting the flag first, and ignores every result while the flag is set. When the
  response call returns, a timer due 10 s later is added to the pending ones and the flag
  stays as it is; when it throws, the flag is cleared at once. As time passes the flag is
  set exactly when it was set and no pending timer has fallen due, whichever response
  set that timer, and the timers still pending are those not yet due. So after a response
  call has returned, the flag, if set, stays set as long as no pending timer is due, in
  which time the microphone fallback and the tick do nothing, and it is clear 10 s after
  the return.
\<close>

theorem response_gate:
  "(triggered (onTranscript t isFinal st) \<noteq> triggered st \<longleftrightarrow> isFinal \<and> 2 < length (trim t)) \<and>
   triggered (onTranscript t isFinal st)
     = (if isFinal \<and> 2 < length (trim t) then triggered st @ [trim t] else triggered st) \<and>
   isSpeaking (onTranscript t isFinal st) = isSpeaking st \<and>
   (isSpeaking st \<longrightarrow> transcriptionCheck now st = (Speaking, st)) \<and>
   (triggered (onTranscription r st) \<noteq> triggered st \<longleftrightarrow>
      (\<exists>x. r = Transcribed True x \<and> 2 < length (trim x))) \<and>
   (triggered (onTranscription r st) \<noteq> triggered st \<longrightarrow> isSpeaking (onTranscription r st)) \<and>
   (\<forall>x. r = Transcribed True x \<and> 2 < length (trim x) \<longrightarrow>
      triggered (onTranscription r st) = triggered st @ [trim x]) \<and>
   (triggered (onresult t st) \<noteq> triggered st \<longleftrightarrow> \<not> isSpeaking st \<and> 2 \<le> length (trim t)) \<and>
   (triggered (onresult t st) \<noteq> triggered st \<longrightarrow>
      isSpeaking (onresult t st) \<and> triggered (onresult t st) = triggered st @ [trim t]) \<and>
   (isSpeaking st \<longrightarrow> onresult t st = st) \<and>
   isSpeaking (afterTrigger now (Returns ()) st) = isSpeaking st \<and>
   readyTimers (afterTrigger now (Returns ()) st) = readyTimers st @ [now + 10000] \<and>
   \<not> isSpeaking (afterTrigger now Throws st) \<and>
   readyTimers (afterTrigger now Throws st) = readyTimers st \<and>
   isSpeaking (advanceTo later st)
     = (isSpeaking st \<and> (\<forall>due \<in> set (readyTimers st). later < due)) \<and>
   readyTimers (advanceTo later st) = filter (\<lambda>due. later < due) (readyTimers st) \<and>
   ((\<forall>due \<in> set (readyTimers st). later < due) \<longrightarrow> advanceTo later st = st) \<and>
   (isSpeaking st \<and> (\<forall>due \<in> set (readyTimers st). later < due) \<and> later < now + 10000 \<longrightarrow>
      isSpeaking (advanceTo later (afterTrigger now (Returns ()) st)) \<and>
      onresult u (advanceTo later (afterTrigger now (Returns ()) st))
        = advanceTo later (afterTrigger now (Returns ()) st) \<and>
      fst (transcriptionCheck later (advanceTo later (afterBatchTrigger now (Returns ()) st)))
        = Speaking) \<and>
   \<not> isSpeaking (advanceTo (now + 10000) (afterTrigger now (Returns ()) st))"
proof -
  have check: "isSpeaking st \<longrightarrow> transcriptionCheck now st = (Speaking, st)"
    by (simp add: transcriptionCheck_def)
  note s = stream_gate [of t isFinal st]
  note b = batch_gate [of r st]
  note m = mic_gate [of t st]
  note f = flag_window [of now st later u]
  have s1: "triggered (onTranscript t isFinal st) \<noteq> triggered st \<longleftrightarrow> isFinal \<and> 2 < length (trim t)"
    using s by blast
  have s2: "triggered (onTranscript t isFinal st)
      = (if isFinal \<and> 2 < length (trim t) then triggered st @ [trim t] else triggered st)"
    using s by blast
  have s3: "isSpeaking (onTranscript t isFinal st) = isSpeaking st"
    using s by blast
  have b1: "triggered (onTranscription r st) \<noteq> triggered st \<longleftrightarrow>
      (\<exists>x. r = Transcribed True x \<and> 2 < length (trim x))"
    using b by blast
  have b2: "triggered (onTranscription r st) \<noteq> triggered st \<longrightarrow> isSpeaking (onTranscription r st)"
    using b by blast
  have b3: "\<forall>x. r = Transcribed True x \<and> 2 < length (trim x) \<longrightarrow>
      triggered (onTranscription r st) = triggered st @ [trim x]"
    using b by blast
  have m1: "triggered (onresult t st) \<noteq> triggered st \<longleftrightarrow> \<not> isSpeaking st \<and> 2 \<le> length (trim t)"
    using m by blast
  have m2: "triggered (onresult t st) \<noteq> triggered st \<longrightarrow>
      isSpeaking (onresult t st) \<and> triggered (onresult t st) = triggered st @ [trim t]"
    using m by blast
  have m3: "isSpeaking st \<longrightarrow> onresult t st = st"
    using m by blast
  have rest: "isSpeaking (afterTrigger now (Returns ()) st) = isSpeaking st \<and>
      readyTimers (afterTrigger now (Returns ()) st) = readyTimers st @ [now + 10000] \<and>
      \<not> isSpeaking (afterTrigger now Throws st) \<and>
      readyTimers (afterTrigger now Throws st) = readyTimers st \<and>
      isSpeaking (advanceTo later st)
        = (isSpeaking st \<and> (\<forall>due \<in> set (readyTimers st). later < due)) \<and>
      readyTimers (advanceTo later st) = filter (\<lambda>due. later < due) (readyTimers st) \<and>
      ((\<forall>due \<in> set (readyTimers st). later < due) \<longrightarrow> advanceTo later st = st) \<and>
      (isSpeaking st \<and> (\<forall>due \<in> set (readyTimers st). later < due) \<and> later < now + 10000 \<longrightarrow>
         isSpeaking (advanceTo later (afterTrigger now (Returns ()) st)) \<and>
         onresult u (advanceTo later (afterTrigger now (Returns ()) st))
           = advanceTo later (afterTrigger now (Returns ()) st) \<and>
         fst (transcriptionCheck later (advanceTo later (afterBatchTrigger now (Returns ()) st)))
           = Speaking) \<and>
      \<not> isSpeaking (advanceTo (now + 10000) (afterTrigger now (Returns ()) st))"
    by (rule f)
  show ?thesis
    apply (rule conjI, rule s1)
    apply (rule conjI, rule s2)
    apply (rule conjI, rule s3)
    apply (rule conjI, rule check)
    apply (rule conjI, rule b1)
    apply (rule conjI, rule b2)
    apply (rule conjI, rule b3)
    apply (rule conjI, rule m1)
    apply (rule conjI, rule m2)
    apply (rule conjI, rule m3)
    apply (rule rest)
    done
qed

theorem response_gate_witness:
  "isSpeaking respondingState \<and> readyTimers respondingState = [] \<and>
   (1700000009000::int) < 1700000000000 + 10000 \<and>
   transcriptionCheck 1700000000000 respondingState = (Speaking, respondingState) \<and>
   onresult ''hello'' respondingState = respondingState \<and>
   isSpeaking (advanceTo 1700000009000 (afterTrigger 1700000000000 (Returns ()) respondingState)) \<and>
   \<not> isSpeaking (advanceTo (1700000000000 + 10000)
                   (afterTrigger 1700000000000 (Returns ()) respondingState))"
proof -
  have pre: "isSpeaking respondingState" "readyTimers respondingState = []"
    by (simp_all add: respondingState_def)
  have none: "\<forall>due \<in> set (readyTimers respondingState). 1700000009000 < due"
    by (simp add: respondingState_def)
  have lt: "(1700000009000::int) < 1700000000000 + 10000" by simp
  show ?thesis
    using response_gate [where t = "''hello''" and isFinal = True and st = respondingState
        and now = 1700000000000 and r = "Transcribed True ''hello''" and later = 1700000009000
        and u = "''hello''"] pre none lt
    by blast
qed


subsection \<open>Speaking in the meeting\<close>

lemma speakBody_failures:
  "(deepgramApiKey env \<and> consoleSubscription env = Returns () \<and> ttsService env = Returns () \<and>
      textToSpeech env = Throws \<longrightarrow> isl (fst (speakBody env text))) \<and>
   (deepgramApiKey env \<and> consoleSubscription env = Returns () \<and> ttsService env = Returns () \<and>
      textToSpeech env = Returns () \<and> ttsStreamCreated env = Throws \<longrightarrow>
      isl (fst (speakBody env text))) \<and>
   (deepgramApiKey env \<and> consoleSubscription env = Returns () \<and> ttsService env = Returns () \<and>
      textToSpeech env = Returns () \<and> ttsStreamCreated env = Returns True \<and>
      (waitAfterMic env = Throws \<or> waitsAroundToggle env = Throws) \<longrightarrow>
      isl (fst (speakBody env text))) \<and>
   (deepgramApiKey env \<and> consoleSubscription env = Returns () \<and> ttsService env = Returns () \<and>
      textToSpeech env = Returns () \<and> ttsStreamCreated env = Returns True \<and>
      waitAfterMic env = Returns () \<and> waitsAroundToggle env = Returns () \<and>
      playbackResult env = Throws \<longrightarrow> isl (fst (speakBody env text)))"
  by (auto simp: speakBody_def speakPlayback_def Let_def split: attempt.splits bool.splits)

lemma speakInMeeting_returns: "fst (speakInMeeting env text) = Returns ()"
  by (simp add: speakInMeeting_def split: prod.splits sum.splits)

lemma speakInMeeting_logs:
  "snd (speakInMeeting env text) =
     (if isl (fst (speakBody env text))
      then snd (speakBody env text) @ [''Error speaking in meeting'']
      else snd (speakBody env text))"
  by (auto simp: speakInMeeting_def split: prod.splits sum.splits)

text \<open>
  C9. Whatever the text and whichever collaborator fails, \<^verbatim>\<open>speakInMeeting\<close> returns to
  its caller. When the body throws, which it does when the synthesis, the stream
  creation, a wait around the microphone toggling or the playback call throws, the error
  is logged as "Error speaking in meeting" and nothing is passed on.
\<close>

theorem speak_never_throws:
  "fst (speakInMeeting env text) = Returns () \<and>
   snd (speakInMeeting env text) =
     (if isl (fst (speakBody env text))
      then snd (speakBody env text) @ [''Error speaking in meeting'']
      else snd (speakBody env text)) \<and>
   (deepgramApiKey env \<and> consoleSubscription env = Returns () \<and> ttsService env = Returns () \<and>
      textToSpeech env = Throws \<longrightarrow> isl (fst (speakBody env text))) \<and>
   (deepgramApiKey env \<and> consoleSubscription env = Returns () \<and> ttsService env = Returns () \<and>
      textToSpeech env = Returns () \<and> ttsStreamCreated env = Throws \<longrightarrow>
      isl (fst (speakBody env text))) \<and>
   (deepgramApiKey env \<and> consoleSubscription env = Returns () \<and> ttsService env = Returns () \<and>
      textToSpeech env = Returns () \<and> ttsStreamCreated env = Returns True \<and>
      (waitAfterMic env = Throws \<or> waitsAroundToggle env = Throws) \<longrightarrow>
      isl (fst (speakBody env text))) \<and>
   (deepgramApiKey env \<and> consoleSubscription env = Returns () \<and> ttsService env = Returns () \<and>
      textToSpeech env = Returns () \<and> ttsStreamCreated env = Returns True \<and>
      waitAfterMic env = Returns () \<and> waitsAroundToggle env = Returns () \<and>
      playbackResult env = Throws \<longrightarrow> isl (fst (speakBody env text)))"
  using speakInMeeting_returns [of env "text"] speakInMeeting_logs [of env "text"]
    speakBody_failures [of env "text"]
  by blast

theorem speak_never_throws_witness:
  "deepgramApiKey synthesisFails \<and> consoleSubscription synthesisFails = Returns () \<and>
   ttsService synthesisFails = Returns () \<and> textToSpeech synthesisFails = Throws \<and>
   isl (fst (speakBody synthesisFails ''Hello'')) \<and>
   speakInMeeting synthesisFails ''Hello'' = (Returns (), [''Error speaking in meeting'']) \<and>
   playbackResult playbackFails = Throws \<and>
   speakInMeeting playbackFails ''Hello''
     = (Returns (), [''Could not enable microphone button, but will attempt to inject audio anyway'',
                     ''Error speaking in meeting''])"
proof -
  have s: "deepgramApiKey synthesisFails" "consoleSubscription synthesisFails = Returns ()"
      "ttsService synthesisFails = Returns ()" "textToSpeech synthesisFails = Throws"
    by (simp_all add: synthesisFails_def)
  have body: "snd (speakBody synthesisFails ''Hello'') = []"
    by (simp add: speakBody_def synthesisFails_def)
  have p: "playbackResult playbackFails = Throws"
    by (simp add: playbackFails_def)
  have pbody: "speakBody playbackFails ''Hello''
      = (Inl ''page.evaluate'',
         [''Could not enable microphone button, but will attempt to inject audio anyway''])"
    by (simp add: speakBody_def speakPlayback_def playbackFails_def synthesisFails_def)
  have "isl (fst (speakBody synthesisFails ''Hello''))"
    using speak_never_throws [of synthesisFails "''Hello''"] s by blast
  moreover have "speakInMeeting synthesisFails ''Hello'' = (Returns (), [''Error speaking in meeting''])"
    using speak_never_throws [of synthesisFails "''Hello''"] s body
    by (metis append_Nil prod.collapse)
  moreover have "speakInMeeting playbackFails ''Hello''
     = (Returns (), [''Could not enable microphone button, but will attempt to inject audio anyway'',
                     ''Error speaking in meeting''])"
    using speak_never_throws [of playbackFails "''Hello''"] pbody
    by (simp add: prod_eq_iff)
  ultimately show ?thesis using s p by blast
qed

subsection \<open>Page-type classification\<close>

lemma verify_examples:
  "googleMeetPageStatus meetPage = Some GOOGLE_MEET_PAGE"
  "googleMeetPageStatus signInPage = Some SIGN_IN_PAGE"
  "googleMeetPageStatus otherPage = Some UNSUPPORTED_PAGE"
  "googleMeetPageStatus brokenPage = None"
  by (simp_all add: googleMeetPageStatus_def verifyItIsOnGoogleMeetPage_def detectSignInPage_def
      startsWith_def meetPage_def signInPage_def otherPage_def brokenPage_def)

lemma classificationLog_examples:
  "classificationLog meetPage = []"
  "classificationLog signInPage = [SignInUrlLogged, SignInHeadingLogged, RequiresSignInLogged]"
  "classificationLog otherPage = [UnsupportedPageLogged]"
  "classificationLog brokenPage = [VerifyErrorLogged]"
  by (simp_all add: classificationLog_def afterClassification_def googleMeetPageStatus_def
      verifyItIsOnGoogleMeetPage_def detectSignInPage_def startsWith_def meetPage_def
      signInPage_def otherPage_def brokenPage_def)

lemma joinMeeting_sign_in:
  assumes "launch env = Returns ()"
      and "googleMeetPageStatus (classification env) = Some SIGN_IN_PAGE"
  shows "joinMeeting env st = (Inl (UnsupportedMeetingError ''Meeting requires sign in'' SIGN_IN_PAGE), st)"
  using assms by (simp add: joinMeeting_def afterClassification_def)

lemma joinMeeting_not_sign_in:
  assumes "googleMeetPageStatus (classification env) \<noteq> Some SIGN_IN_PAGE"
  shows "joinMeeting env st = joinMeeting (env\<lparr>classification := meetPage\<rparr>) st"
  using assms
  by (simp add: joinMeeting_def afterClassification_def verify_examples Let_def
      split: attempt.splits sum.splits)

lemma joinMeeting_unsupported_error:
  assumes "fst (joinMeeting env st) = Inl (UnsupportedMeetingError m s)"
  shows "googleMeetPageStatus (classification env) = Some SIGN_IN_PAGE"
  using assms
  by (auto simp: joinMeeting_def afterClassification_def lobbyStage_def Let_def
      split: attempt.splits sum.splits if_splits)

lemma status_None_iff:
  "googleMeetPageStatus obs = None \<longleftrightarrow>
      pageUrl obs = Throws \<or>
      (\<exists>u. pageUrl obs = Returns u \<and> \<not> str_includes u ''meet.google.com'' \<and>
           (detectUrl obs = Throws \<or> signInHeading obs = Throws))"
  by (auto simp: googleMeetPageStatus_def verifyItIsOnGoogleMeetPage_def detectSignInPage_def
      Let_def split: attempt.splits option.splits prod.splits if_splits)

lemma status_sign_in_iff:
  "googleMeetPageStatus obs = Some SIGN_IN_PAGE \<longleftrightarrow>
      (\<exists>u v h. pageUrl obs = Returns u \<and> \<not> str_includes u ''meet.google.com'' \<and>
           detectUrl obs = Returns v \<and> startsWith v ''https://accounts.google.com/'' \<and>
           signInHeading obs = Returns h)"
  by (auto simp: googleMeetPageStatus_def verifyItIsOnGoogleMeetPage_def detectSignInPage_def
      Let_def split: attempt.splits option.splits prod.splits if_splits)

lemma verify_error_logged:
  "VerifyErrorLogged \<in> set (snd (verifyItIsOnGoogleMeetPage obs)) \<longleftrightarrow>
     googleMeetPageStatus obs = None"
  by (auto simp: googleMeetPageStatus_def verifyItIsOnGoogleMeetPage_def detectSignInPage_def
      Let_def split: attempt.splits option.splits prod.splits if_splits)

lemma classificationLog_last:
  "(googleMeetPageStatus obs = None \<longrightarrow>
      classificationLog obs \<noteq> [] \<and> last (classificationLog obs) = VerifyErrorLogged) \<and>
   (googleMeetPageStatus obs = Some UNSUPPORTED_PAGE \<longrightarrow>
      classificationLog obs \<noteq> [] \<and> last (classificationLog obs) = UnsupportedPageLogged) \<and>
   (googleMeetPageStatus obs = Some SIGN_IN_PAGE \<longrightarrow>
      classificationLog obs \<noteq> [] \<and> last (classificationLog obs) = RequiresSignInLogged) \<and>
   (googleMeetPageStatus obs = Some GOOGLE_MEET_PAGE \<longrightarrow> classificationLog obs = [])"
  by (auto simp: classificationLog_def afterClassification_def googleMeetPageStatus_def
      verifyItIsOnGoogleMeetPage_def detectSignInPage_def Let_def
      split: attempt.splits option.splits prod.splits if_splits)

text \<open>
  C4, as the claim states it, fails: on a page that is neither a Google Meet page nor the
  sign-in page the classification is \<^verbatim>\<open>UNSUPPORTED_PAGE\<close>, which \<^verbatim>\<open>joinMeeting\<close> only
  logs; no error is raised and the join goes on, here up to \<open>finished\<close>.
\<close>

theorem unsupported_page_proceeds:
  "googleMeetPageStatus otherPage = Some UNSUPPORTED_PAGE \<and>
   afterClassification (googleMeetPageStatus otherPage) = (Inr (), [UnsupportedPageLogged]) \<and>
   joinMeeting (goodMeeting\<lparr>classification := otherPage\<rparr>) [processing]
     = (Inr (), [processing, joined, finished])"
proof -
  have "joinMeeting (goodMeeting\<lparr>classification := otherPage\<rparr>) [processing]
          = joinMeeting (goodMeeting\<lparr>classification := otherPage, classification := meetPage\<rparr>) [processing]"
    by (rule joinMeeting_not_sign_in) (simp add: verify_examples)
  also have "goodMeeting\<lparr>classification := otherPage, classification := meetPage\<rparr> = goodMeeting"
    by (simp add: goodMeeting_def)
  finally show ?thesis
    by (simp add: verify_examples afterClassification_def goodMeeting_run)
qed

text \<open>
  C4, amended. Only a \<^verbatim>\<open>SIGN_IN_PAGE\<close> result raises the unsupported-meeting error
  (with that status as its reason), and then \<^verbatim>\<open>joinMeeting\<close> stops at the
  classification without pushing a status. A \<^verbatim>\<open>GOOGLE_MEET_PAGE\<close> result proceeds and
  logs nothing. An \<^verbatim>\<open>UNSUPPORTED_PAGE\<close> result is logged and proceeds. The
  indeterminate result \<^verbatim>\<open>null\<close> arises exactly when a read of the page throws; the
  error is logged, exactly then, and \<^verbatim>\<open>joinMeeting\<close> proceeds. In all three proceeding
  cases \<^verbatim>\<open>joinMeeting\<close> behaves as on a Google Meet page, and an unsupported-meeting
  error can only come from a \<^verbatim>\<open>SIGN_IN_PAGE\<close> result.
\<close>

theorem classification_handling:
  "afterClassification (Some SIGN_IN_PAGE)
     = (Inl (UnsupportedMeetingError ''Meeting requires sign in'' SIGN_IN_PAGE),
        [RequiresSignInLogged]) \<and>
   afterClassification (Some GOOGLE_MEET_PAGE) = (Inr (), []) \<and>
   afterClassification (Some UNSUPPORTED_PAGE) = (Inr (), [UnsupportedPageLogged]) \<and>
   afterClassification None = (Inr (), []) \<and>
   (launch env = Returns () \<and> googleMeetPageStatus (classification env) = Some SIGN_IN_PAGE \<longrightarrow>
      joinMeeting env st
        = (Inl (UnsupportedMeetingError ''Meeting requires sign in'' SIGN_IN_PAGE), st)) \<and>
   (googleMeetPageStatus (classification env) \<noteq> Some SIGN_IN_PAGE \<longrightarrow>
      joinMeeting env st = joinMeeting (env\<lparr>classification := meetPage\<rparr>) st) \<and>
   (\<forall>m s. fst (joinMeeting env st) = Inl (UnsupportedMeetingError m s) \<longrightarrow>
      googleMeetPageStatus (classification env) = Some SIGN_IN_PAGE) \<and>
   (googleMeetPageStatus obs = None \<longleftrightarrow>
      pageUrl obs = Throws \<or>
      (\<exists>u. pageUrl obs = Returns u \<and> \<not> str_includes u ''meet.google.com'' \<and>
           (detectUrl obs = Throws \<or> signInHeading obs = Throws))) \<and>
   (VerifyErrorLogged \<in> set (snd (verifyItIsOnGoogleMeetPage obs)) \<longleftrightarrow>
      googleMeetPageStatus obs = None) \<and>
   (googleMeetPageStatus obs = None \<longrightarrow>
      classificationLog obs \<noteq> [] \<and> last (classificationLog obs) = VerifyErrorLogged) \<and>
   (googleMeetPageStatus obs = Some UNSUPPORTED_PAGE \<longrightarrow>
      classificationLog obs \<noteq> [] \<and> last (classificationLog obs) = UnsupportedPageLogged) \<and>
   (googleMeetPageStatus obs = Some GOOGLE_MEET_PAGE \<longrightarrow> classificationLog obs = []) \<and>
   (googleMeetPageStatus obs = Some SIGN_IN_PAGE \<longleftrightarrow>
      (\<exists>u v h. pageUrl obs = Returns u \<and> \<not> str_includes u ''meet.google.com'' \<and>
           detectUrl obs = Returns v \<and> startsWith v ''https://accounts.google.com/'' \<and>
           signInHeading obs = Returns h))"
proof -
  have after: "afterClassification (Some SIGN_IN_PAGE)
       = (Inl (UnsupportedMeetingError ''Meeting requires sign in'' SIGN_IN_PAGE),
          [RequiresSignInLogged]) \<and>
     afterClassification (Some GOOGLE_MEET_PAGE) = (Inr (), []) \<and>
     afterClassification (Some UNSUPPORTED_PAGE) = (Inr (), [UnsupportedPageLogged]) \<and>
     afterClassification None = (Inr (), [])"
    by (simp add: afterClassification_def)
  show ?thesis
    using after status_None_iff [of obs] status_sign_in_iff [of obs] verify_error_logged [of obs]
      classificationLog_last [of obs]
      joinMeeting_sign_in [of env st] joinMeeting_not_sign_in [of env st]
      joinMeeting_unsupported_error [of env st]
    by blast
qed

theorem classification_handling_witness:
  "launch (goodMeeting\<lparr>classification := signInPage\<rparr>) = Returns () \<and>
   googleMeetPageStatus (classification (goodMeeting\<lparr>classification := signInPage\<rparr>))
     = Some SIGN_IN_PAGE \<and>
   joinMeeting (goodMeeting\<lparr>classification := signInPage\<rparr>) [processing]
     = (Inl (UnsupportedMeetingError ''Meeting requires sign in'' SIGN_IN_PAGE), [processing]) \<and>
   googleMeetPageStatus brokenPage = None \<and>
   classificationLog brokenPage = [VerifyErrorLogged] \<and>
   last (classificationLog brokenPage) = VerifyErrorLogged \<and>
   joinMeeting (goodMeeting\<lparr>classification := brokenPage\<rparr>) [processing]
     = (Inr (), [processing, joined, finished])"
proof -
  have l: "launch (goodMeeting\<lparr>classification := signInPage\<rparr>) = Returns ()"
    by (simp add: goodMeeting_def)
  have s: "googleMeetPageStatus (classification (goodMeeting\<lparr>classification := signInPage\<rparr>))
      = Some SIGN_IN_PAGE"
    by (simp add: verify_examples)
  have b: "googleMeetPageStatus (classification (goodMeeting\<lparr>classification := brokenPage\<rparr>))
      \<noteq> Some SIGN_IN_PAGE" "googleMeetPageStatus brokenPage = None"
    by (simp_all add: verify_examples)
  have same: "goodMeeting\<lparr>classification := brokenPage, classification := meetPage\<rparr> = goodMeeting"
    by (simp add: goodMeeting_def)
  have "joinMeeting (goodMeeting\<lparr>classification := signInPage\<rparr>) [processing]
     = (Inl (UnsupportedMeetingError ''Meeting requires sign in'' SIGN_IN_PAGE), [processing])"
    using classification_handling [of "goodMeeting\<lparr>classification := signInPage\<rparr>" "[processing]"
        brokenPage] l s by blast
  moreover have "joinMeeting (goodMeeting\<lparr>classification := brokenPage\<rparr>) [processing]
     = joinMeeting (goodMeeting\<lparr>classification := brokenPage, classification := meetPage\<rparr>)
         [processing]"
    using classification_handling [of "goodMeeting\<lparr>classification := brokenPage\<rparr>" "[processing]"
        brokenPage] b(1) by blast
  moreover have "last (classificationLog brokenPage) = VerifyErrorLogged"
    using classification_handling [of "goodMeeting\<lparr>classification := brokenPage\<rparr>" "[processing]"
        brokenPage] b(2) by blast
  ultimately show ?thesis
    using l s b(2) same by (simp add: goodMeeting_run classificationLog_examples)
qed

lemma screenAppSendData_matching:
  "tempFile (screenAppSendData f (slightlySecretId st) d st) = tempFile st @ [f d]"
  by (simp add: screenAppSendData_def)

lemma screenAppMeetEnd_matching:
  "waitingPromise st = Some r \<Longrightarrow>
   waitingPromise (screenAppMeetEnd (slightlySecretId st) st) = Some True"
  by (simp add: screenAppMeetEnd_def Let_def)

text \<open>
  C10. A call of either page-exposed callback whose first argument differs from the
  session's \<^verbatim>\<open>slightlySecretId\<close> leaves the whole host state unchanged: no buffer is
  saved through the uploader and the recording wait is not resolved early. Hence any
  change of the host state comes from a call that carried the matching id.
\<close>

theorem secret_id_guard:
  "(secretArg \<noteq> slightlySecretId st \<longrightarrow>
      screenAppSendData fromBase64 secretArg data st = st \<and>
      screenAppMeetEnd secretArg st = st) \<and>
   (screenAppSendData fromBase64 secretArg data st \<noteq> st \<longrightarrow> secretArg = slightlySecretId st) \<and>
   (screenAppMeetEnd secretArg st \<noteq> st \<longrightarrow> secretArg = slightlySecretId st)"
  by (simp add: screenAppSendData_def screenAppMeetEnd_def)

theorem secret_id_guard_witness:
  "''guess'' \<noteq> slightlySecretId \<lparr>slightlySecretId = ''s3cr3t'', tempFile = [[1::nat, 2]],
       waitingPromise = Some False, hostLog = []\<rparr> \<and>
   screenAppSendData (map (\<lambda>c. of_char c)) ''guess'' ''AAEC''
     \<lparr>slightlySecretId = ''s3cr3t'', tempFile = [[1::nat, 2]], waitingPromise = Some False, hostLog = []\<rparr>
     = \<lparr>slightlySecretId = ''s3cr3t'', tempFile = [[1::nat, 2]], waitingPromise = Some False, hostLog = []\<rparr> \<and>
   screenAppMeetEnd ''guess''
     \<lparr>slightlySecretId = ''s3cr3t'', tempFile = [[1::nat, 2]], waitingPromise = Some False, hostLog = []\<rparr>
     = \<lparr>slightlySecretId = ''s3cr3t'', tempFile = [[1::nat, 2]], waitingPromise = Some False, hostLog = []\<rparr> \<and>
   screenAppSendData (map (\<lambda>c. of_char c)) ''s3cr3t'' ''AAEC''
     \<lparr>slightlySecretId = ''s3cr3t'', tempFile = [[1::nat, 2]], waitingPromise = Some False, hostLog = []\<rparr>
     \<noteq> \<lparr>slightlySecretId = ''s3cr3t'', tempFile = [[1::nat, 2]], waitingPromise = Some False, hostLog = []\<rparr>"
  using secret_id_guard [of "''guess''"
      "\<lparr>slightlySecretId = ''s3cr3t'', tempFile = [[1::nat, 2]], waitingPromise = Some False, hostLog = []\<rparr>"
      "map (\<lambda>c. of_char c)" "''AAEC''"]
  by (simp add: screenAppSendData_def)

end
